theory Spec2Isabelle
  imports Main "HOL-Library.Word"
begin

section \<open>Data model (package game)\<close>

text \<open>
  Go's \<open>int\<close> is a 64-bit machine integer: \<open>+\<close> and \<open>-\<close> wrap. \<open>uuid.UUID\<close> is an array
  of 16 bytes. \<open>time.Time\<close> is a point in time, here a number of ticks. A Go \<open>string\<close> is
  a sequence of bytes, as an Isabelle \<open>string\<close> is; \<open>len\<close> counts bytes and \<open>s[i]\<close>
  is a byte.
\<close>

type_synonym goint = "64 word"
type_synonym uuid = "128 word"
type_synonym time = int

text \<open>\<open>type Status string\<close> and \<open>type Result string\<close>: open strings with named constants.\<close>

type_synonym Status = string
type_synonym Result = string

definition StatusWaiting :: Status where "StatusWaiting = ''waiting''"
definition StatusOngoing :: Status where "StatusOngoing = ''ongoing''"
definition StatusCheckmate :: Status where "StatusCheckmate = ''checkmate''"
definition StatusStalemate :: Status where "StatusStalemate = ''stalemate''"
definition StatusDraw :: Status where "StatusDraw = ''draw''"
definition StatusResigned :: Status where "StatusResigned = ''resigned''"

definition ResultWhite :: Result where "ResultWhite = ''1-0''"
definition ResultBlack :: Result where "ResultBlack = ''0-1''"
definition ResultDraw :: Result where "ResultDraw = ''1/2-1/2''"

text \<open>
  The sentinel errors of packages game, ports and usecase. \<open>ErrOther\<close> stands for any
  other error value (an infrastructure error of a backend). \<open>PanicSliceBounds\<close> is not an
  error value: it marks a run-time panic of a slice expression out of range.
\<close>

datatype error =
    ErrInvalidUCI
  | ErrIllegalMove
  | ErrGameNotOngoing
  | ErrNotFound
  | ErrVersionConflict
  | ErrNoGamesAvailable
  | ErrAlreadyMoved
  | ErrNotAssigned
  | ErrRateLimited
  | ErrOther string
  | PanicSliceBounds

text \<open>
  The entity \<open>Game\<close>. Its unexported field \<open>chessGame\<close> is written by the constructors and
  read by no function; it is left out.
\<close>

record Game =
  ID :: uuid
  Status :: Status
  Result :: "Result option"
  FEN :: string
  SideToMove :: string
  PlyCount :: goint
  LastMoveUCI :: "string option"
  LastMoveAt :: "time option"
  StateVersion :: goint
  CreatedAt :: time
  UpdatedAt :: time

record MoveRecord =
  rec_ID :: uuid
  rec_UCI :: string
  rec_FENBefore :: string
  rec_FENAfter :: string
  rec_CreatedAt :: time

record MoveHistoryItem =
  Ply :: goint
  UCI :: string
  FromSq :: string
  ToSq :: string
  Promotion :: "string option"
  ClientID :: uuid
  FENBefore :: string
  FENAfter :: string
  item_CreatedAt :: time

section \<open>The chess library, as ApplyMove uses it\<close>

text \<open>
  Package \<open>github.com/notnil/chess\<close> is an external library. The functions of it that the
  repository calls are the fields of a record, over a type \<open>'p\<close> of library game objects:
  \<open>chess_NewGame\<close> is \<open>chess.NewGame()\<close>, \<open>chess_FEN\<close> is \<open>chess.FEN(s)\<close> followed by
  \<open>chess.NewGame(fenOpt)\<close> (\<open>None\<close> when the library returns an error),
  \<open>chess_MoveStr\<close> is \<open>MoveStr\<close> (\<open>None\<close> when it returns an error, otherwise the game
  after the move), \<open>chess_String\<close> is \<open>Position().String()\<close>, \<open>chess_Turn\<close> is
  \<open>Position().Turn()\<close>, \<open>chess_Moves\<close> is \<open>Moves()\<close>.
\<close>

datatype Color = NoColor | White | Black

datatype Outcome = NoOutcome | WhiteWon | BlackWon | Draw

datatype Method =
    NoMethod
  | Checkmate
  | Resignation
  | DrawOffer
  | Stalemate
  | ThreefoldRepetition
  | FivefoldRepetition
  | FiftyMoveRule
  | SeventyFiveMoveRule
  | InsufficientMaterial

record 'p chess =
  chess_NewGame :: 'p
  chess_FEN :: "string \<Rightarrow> 'p option"
  chess_MoveStr :: "'p \<Rightarrow> string \<Rightarrow> 'p option"
  chess_String :: "'p \<Rightarrow> string"
  chess_Turn :: "'p \<Rightarrow> Color"
  chess_Moves :: "'p \<Rightarrow> string list"
  chess_Outcome :: "'p \<Rightarrow> Outcome"
  chess_Method :: "'p \<Rightarrow> Method"

section \<open>The rule engine (package game)\<close>

definition colorName :: "Color \<Rightarrow> string" where
  "colorName c = (if c = White then ''white'' else ''black'')"

definition fromChessGame :: "'p chess \<Rightarrow> uuid \<Rightarrow> 'p \<Rightarrow> time \<Rightarrow> Game" where
  "fromChessGame lib gid cg now =
     \<lparr>ID = gid,
      Status = StatusOngoing,
      Result = None,
      FEN = chess_String lib cg,
      SideToMove = colorName (chess_Turn lib cg),
      PlyCount = of_nat (length (chess_Moves lib cg)),
      LastMoveUCI = None,
      LastMoveAt = None,
      StateVersion = 0,
      CreatedAt = now,
      UpdatedAt = now\<rparr>"

definition NewGame :: "'p chess \<Rightarrow> uuid \<Rightarrow> time \<Rightarrow> Game" where
  "NewGame lib gid now = fromChessGame lib gid (chess_NewGame lib) now"

definition byte :: "char \<Rightarrow> nat" where
  "byte c = of_char c"

definition isValidUCISyntax :: "string \<Rightarrow> bool" where
  "isValidUCISyntax s =
     (if length s < 4 \<or> length s > 5 then False
      else if byte (s ! 0) < byte CHR ''a'' \<or> byte (s ! 0) > byte CHR ''h'' then False
      else if byte (s ! 1) < byte CHR ''1'' \<or> byte (s ! 1) > byte CHR ''8'' then False
      else if byte (s ! 2) < byte CHR ''a'' \<or> byte (s ! 2) > byte CHR ''h'' then False
      else if byte (s ! 3) < byte CHR ''1'' \<or> byte (s ! 3) > byte CHR ''8'' then False
      else if length s = 5 then
        (if s ! 4 = CHR ''q'' \<or> s ! 4 = CHR ''r'' \<or> s ! 4 = CHR ''b'' \<or> s ! 4 = CHR ''n''
         then True else False)
      else True)"

definition outcomeToStatus :: "Outcome \<Rightarrow> Method \<Rightarrow> Status \<times> Result option" where
  "outcomeToStatus outcome method =
     (case outcome of
        WhiteWon \<Rightarrow>
          (if method = Checkmate then (StatusCheckmate, Some ResultWhite)
           else (StatusResigned, Some ResultWhite))
      | BlackWon \<Rightarrow>
          (if method = Checkmate then (StatusCheckmate, Some ResultBlack)
           else (StatusResigned, Some ResultBlack))
      | Draw \<Rightarrow>
          (if method = Stalemate then (StatusStalemate, Some ResultDraw)
           else (StatusDraw, Some ResultDraw))
      | NoOutcome \<Rightarrow> (StatusOngoing, None))"

text \<open>
  \<open>ApplyMove\<close>. The receiver \<open>g\<close> is only read: the source assigns to no field of it and
  builds the successor \<open>newG\<close> as a fresh struct. \<open>newID\<close> is the value of \<open>uuid.New()\<close>.
\<close>

definition ApplyMove ::
  "'p chess \<Rightarrow> uuid \<Rightarrow> Game \<Rightarrow> string \<Rightarrow> time \<Rightarrow> error + (Game \<times> MoveRecord)" where
  "ApplyMove lib newID g uci now =
     (if Status g \<noteq> StatusOngoing \<and> Status g \<noteq> StatusWaiting then Inl ErrGameNotOngoing
      else if \<not> isValidUCISyntax uci then Inl ErrInvalidUCI
      else
        (case chess_FEN lib (FEN g) of
           None \<Rightarrow> Inl ErrIllegalMove
         | Some cg \<Rightarrow>
             (case chess_MoveStr lib cg uci of
                None \<Rightarrow> Inl ErrIllegalMove
              | Some newCG \<Rightarrow>
                  (let fenBefore = FEN g;
                       fenAfter = chess_String lib newCG;
                       st = outcomeToStatus (chess_Outcome lib newCG) (chess_Method lib newCG);
                       newG = \<lparr>ID = ID g,
                               Status = fst st,
                               Result = snd st,
                               FEN = fenAfter,
                               SideToMove = colorName (chess_Turn lib newCG),
                               PlyCount = PlyCount g + 1,
                               LastMoveUCI = Some uci,
                               LastMoveAt = Some now,
                               StateVersion = StateVersion g + 1,
                               CreatedAt = CreatedAt g,
                               UpdatedAt = now\<rparr>;
                       rec = \<lparr>rec_ID = newID,
                              rec_UCI = uci,
                              rec_FENBefore = fenBefore,
                              rec_FENAfter = fenAfter,
                              rec_CreatedAt = now\<rparr>
                   in Inr (newG, rec)))))"

text \<open>
  The words of the specification for a well-formed move string: exactly 4 or 5 characters,
  the first and third in the file range, the second and fourth in the rank range, an
  optional fifth character in the promotion-piece set.
\<close>

definition wellformed_coordinate_notation :: "string \<Rightarrow> bool" where
  "wellformed_coordinate_notation s =
     ((length s = 4 \<or> length s = 5) \<and>
      s ! 0 \<in> set ''abcdefgh'' \<and> s ! 1 \<in> set ''12345678'' \<and>
      s ! 2 \<in> set ''abcdefgh'' \<and> s ! 3 \<in> set ''12345678'' \<and>
      (length s = 5 \<longrightarrow> s ! 4 \<in> set ''qrbn''))"

text \<open>
  A fragment of the chess rules on which the definitions can be evaluated. The library
  object is a position string. The fragment knows two lines of play from the initial
  position, 1. e4 e5 and 1. f3 e5 2. g4 Qh4 mate, and refuses every other move.
\<close>

definition initialFEN :: string where
  "initialFEN = ''rnbqkbnr/pppppppp/8/8/8/8/PPPPPPPP/RNBQKBNR w KQkq - 0 1''"

definition fen_e4 :: string where
  "fen_e4 = ''rnbqkbnr/pppppppp/8/8/4P3/8/PPPP1PPP/RNBQKBNR b KQkq e3 0 1''"

definition fen_e4e5 :: string where
  "fen_e4e5 = ''rnbqkbnr/pppp1ppp/8/4p3/4P3/8/PPPP1PPP/RNBQKBNR w KQkq e6 0 2''"

definition fen_f3 :: string where
  "fen_f3 = ''rnbqkbnr/pppppppp/8/8/8/5P2/PPPPP1PP/RNBQKBNR b KQkq - 0 1''"

definition fen_f3e5 :: string where
  "fen_f3e5 = ''rnbqkbnr/pppp1ppp/8/4p3/8/5P2/PPPPP1PP/RNBQKBNR w KQkq e6 0 2''"

definition fen_g4 :: string where
  "fen_g4 = ''rnbqkbnr/pppp1ppp/8/4p3/6P1/5P2/PPPPP2P/RNBQKBNR b KQkq g3 0 2''"

definition fen_mate :: string where
  "fen_mate = ''rnb1kbnr/pppp1ppp/8/4p3/6Pq/5P2/PPPPP2P/RNBQKBNR w KQkq - 1 3''"

definition fragment :: "string chess" where
  "fragment =
     \<lparr>chess_NewGame = initialFEN,
      chess_FEN = (\<lambda>s. if s = initialFEN \<or> s = fen_e4 \<or> s = fen_e4e5 \<or> s = fen_f3 \<or>
                           s = fen_f3e5 \<or> s = fen_g4 \<or> s = fen_mate
                        then Some s else None),
      chess_MoveStr = (\<lambda>p m. if p = initialFEN \<and> m = ''e2e4'' then Some fen_e4
                             else if p = initialFEN \<and> m = ''f2f3'' then Some fen_f3
                             else if p = fen_e4 \<and> m = ''e7e5'' then Some fen_e4e5
                             else if p = fen_f3 \<and> m = ''e7e5'' then Some fen_f3e5
                             else if p = fen_f3e5 \<and> m = ''g2g4'' then Some fen_g4
                             else if p = fen_g4 \<and> m = ''d8h4'' then Some fen_mate
                             else None),
      chess_String = (\<lambda>p. p),
      chess_Turn = (\<lambda>p. if p = fen_e4 \<or> p = fen_f3 \<or> p = fen_g4 then Black else White),
      chess_Moves = (\<lambda>p. []),
      chess_Outcome = (\<lambda>p. if p = fen_mate then BlackWon else NoOutcome),
      chess_Method = (\<lambda>p. if p = fen_mate then Checkmate else NoMethod)\<rparr>"

section \<open>The in-memory store (package memory)\<close>

text \<open>
  The Go maps of \<open>Store\<close> are partial functions. \<open>assigned\<close> and \<open>moved\<close> map a game to
  a set of clients; an absent key reads as the nil map. The mutex makes every method one
  step on the store, so a method is a function from the store to a result and a store.
\<close>

record Store =
  games :: "uuid \<rightharpoonup> Game"
  assigned :: "uuid \<rightharpoonup> uuid set"
  moved :: "uuid \<rightharpoonup> uuid set"
  history :: "uuid \<rightharpoonup> MoveHistoryItem list"

text \<open>
  The counted loops of \<open>New\<close> and \<open>CreateWaitingBatch\<close> run for \<open>i = 0, ..., count - 1\<close>
  (not at all when \<open>count\<close> is not positive); \<open>ids i\<close> is the value of \<open>uuid.New()\<close>
  in round \<open>i\<close> and \<open>now\<close> the value of \<open>time.Now()\<close>.
\<close>

definition rounds :: "goint \<Rightarrow> nat" where
  "rounds count = nat (sint count)"

definition memory_New :: "'p chess \<Rightarrow> (nat \<Rightarrow> uuid) \<Rightarrow> time \<Rightarrow> goint \<Rightarrow> Store" where
  "memory_New lib ids now seedCount =
     \<lparr>games = fold (\<lambda>i m. m(ID (NewGame lib (ids i) now) \<mapsto> NewGame lib (ids i) now))
                   [0..<rounds seedCount] Map.empty,
      assigned = Map.empty,
      moved = Map.empty,
      history = Map.empty\<rparr>"

definition memory_GetByID :: "uuid \<Rightarrow> Store \<Rightarrow> error + Game" where
  "memory_GetByID gid s = (case games s gid of None \<Rightarrow> Inl ErrNotFound | Some g \<Rightarrow> Inr g)"

definition memory_CreateWaitingBatch ::
  "'p chess \<Rightarrow> (nat \<Rightarrow> uuid) \<Rightarrow> time \<Rightarrow> goint \<Rightarrow> Store \<Rightarrow> Store" where
  "memory_CreateWaitingBatch lib ids now count s =
     s\<lparr>games := fold (\<lambda>i m. m(ids i \<mapsto> (NewGame lib (ids i) now)\<lparr>Status := StatusWaiting\<rparr>))
                     [0..<rounds count] (games s)\<rparr>"

text \<open>
  The selection loop of \<open>ClaimNextGame\<close>: \<open>for _, g := range s.games\<close> with its two
  \<open>continue\<close>s and its \<open>break\<close>. Go leaves the iteration order of a map unspecified; the
  list \<open>order\<close> is the order in which this \<open>range\<close> yields the keys.
\<close>

fun claim_loop :: "Store \<Rightarrow> uuid \<Rightarrow> uuid list \<Rightarrow> Game option" where
  "claim_loop s clientID [] = None"
| "claim_loop s clientID (k # ks) =
     (case games s k of
        None \<Rightarrow> claim_loop s clientID ks
      | Some g \<Rightarrow>
          if Status g \<noteq> StatusWaiting \<and> Status g \<noteq> StatusOngoing then claim_loop s clientID ks
          else if (case assigned s (ID g) of None \<Rightarrow> False | Some assignedSet \<Rightarrow> clientID \<in> assignedSet)
          then claim_loop s clientID ks
          else Some g)"

definition memory_ClaimNextGame ::
  "uuid list \<Rightarrow> uuid \<Rightarrow> Store \<Rightarrow> (error + (Game \<times> MoveHistoryItem list)) \<times> Store" where
  "memory_ClaimNextGame order clientID s =
     (case claim_loop s clientID order of
        None \<Rightarrow> (Inl ErrNoGamesAvailable, s)
      | Some chosen \<Rightarrow>
          (let s1 = s\<lparr>assigned := (assigned s)(ID chosen \<mapsto>
                       insert clientID (case assigned s (ID chosen) of None \<Rightarrow> {} | Some a \<Rightarrow> a))\<rparr>;
               updated = chosen\<lparr>Status := StatusOngoing\<rparr>;
               s2 = (if Status chosen = StatusWaiting
                     then s1\<lparr>games := (games s1)(ID chosen \<mapsto> updated)\<rparr> else s1);
               chosen2 = (if Status chosen = StatusWaiting then updated else chosen);
               hist = (case history s2 (ID chosen2) of None \<Rightarrow> [] | Some h \<Rightarrow> h)
           in (Inr (chosen2, hist), s2)))"

text \<open>
  \<open>PersistMove\<close>. The slice expressions \<open>rec.UCI[:2]\<close> and \<open>rec.UCI[2:4]\<close> panic when the
  string is shorter; they stand after the assignments to \<open>s.games\<close> and \<open>s.moved\<close>.
\<close>

definition memory_PersistMove ::
  "uuid \<Rightarrow> uuid \<Rightarrow> Game \<Rightarrow> MoveRecord \<Rightarrow> goint \<Rightarrow> Store \<Rightarrow> (error + MoveHistoryItem list) \<times> Store" where
  "memory_PersistMove gameID clientID newGame rec ply s =
     (case assigned s gameID of
        None \<Rightarrow> (Inl ErrNotAssigned, s)
      | Some assignedSet \<Rightarrow>
          if clientID \<notin> assignedSet then (Inl ErrNotAssigned, s)
          else if (case moved s gameID of None \<Rightarrow> False | Some movedSet \<Rightarrow> clientID \<in> movedSet)
          then (Inl ErrAlreadyMoved, s)
          else
            (case games s gameID of
               None \<Rightarrow> (Inl ErrNotFound, s)
             | Some cur \<Rightarrow>
                 if StateVersion cur \<noteq> StateVersion newGame - 1 then (Inl ErrVersionConflict, s)
                 else
                   (let s1 = s\<lparr>games := (games s)(gameID \<mapsto> newGame)\<rparr>;
                        s2 = s1\<lparr>moved := (moved s1)(gameID \<mapsto>
                                insert clientID (case moved s1 gameID of None \<Rightarrow> {} | Some m \<Rightarrow> m))\<rparr>
                    in if length (rec_UCI rec) < 2 then (Inl PanicSliceBounds, s2)
                       else if length (rec_UCI rec) < 4 then (Inl PanicSliceBounds, s2)
                       else
                         (let fromSq = take 2 (rec_UCI rec);
                              toSq = take 2 (drop 2 (rec_UCI rec));
                              promotion = (if length (rec_UCI rec) = 5
                                           then Some (drop 4 (rec_UCI rec)) else None);
                              item = \<lparr>Ply = ply,
                                      UCI = rec_UCI rec,
                                      FromSq = fromSq,
                                      ToSq = toSq,
                                      Promotion = promotion,
                                      ClientID = clientID,
                                      FENBefore = rec_FENBefore rec,
                                      FENAfter = rec_FENAfter rec,
                                      item_CreatedAt = rec_CreatedAt rec\<rparr>;
                              h = (case history s2 gameID of None \<Rightarrow> [] | Some h0 \<Rightarrow> h0) @ [item];
                              s3 = s2\<lparr>history := (history s2)(gameID \<mapsto> h)\<rparr>
                          in (Inr h, s3)))))"

text \<open>
  How the in-memory store holds the Assignment rows of the data model: the row for
  (game, client) exists when the client is in the game's \<open>assigned\<close> set, and its
  \<open>has_moved\<close> flag is membership in the game's \<open>moved\<close> set. A game is eligible for a
  client when its status is waiting or ongoing and no Assignment row for the pair exists.
\<close>

definition assignment_exists :: "Store \<Rightarrow> uuid \<Rightarrow> uuid \<Rightarrow> bool" where
  "assignment_exists s gameID clientID =
     (case assigned s gameID of None \<Rightarrow> False | Some a \<Rightarrow> clientID \<in> a)"

definition has_moved :: "Store \<Rightarrow> uuid \<Rightarrow> uuid \<Rightarrow> bool" where
  "has_moved s gameID clientID =
     (case moved s gameID of None \<Rightarrow> False | Some m \<Rightarrow> clientID \<in> m)"

definition eligible :: "Store \<Rightarrow> uuid \<Rightarrow> Game \<Rightarrow> bool" where
  "eligible s clientID g =
     ((Status g = StatusWaiting \<or> Status g = StatusOngoing) \<and>
      \<not> assignment_exists s (ID g) clientID)"

definition history_of :: "Store \<Rightarrow> uuid \<Rightarrow> MoveHistoryItem list" where
  "history_of s gameID = (case history s gameID of None \<Rightarrow> [] | Some h \<Rightarrow> h)"

text \<open>The state and the result of a claim that finds the game \<open>chosen\<close>.\<close>

definition claimed :: "Store \<Rightarrow> uuid \<Rightarrow> Game \<Rightarrow> Store" where
  "claimed s clientID chosen =
     (if Status chosen = StatusWaiting
      then s\<lparr>assigned := (assigned s)(ID chosen \<mapsto>
               insert clientID (case assigned s (ID chosen) of None \<Rightarrow> {} | Some a \<Rightarrow> a)),
             games := (games s)(ID chosen \<mapsto> chosen\<lparr>Status := StatusOngoing\<rparr>)\<rparr>
      else s\<lparr>assigned := (assigned s)(ID chosen \<mapsto>
               insert clientID (case assigned s (ID chosen) of None \<Rightarrow> {} | Some a \<Rightarrow> a))\<rparr>)"

text \<open>The history item that \<open>PersistMove\<close> builds from the move record.\<close>

definition history_item :: "uuid \<Rightarrow> MoveRecord \<Rightarrow> goint \<Rightarrow> MoveHistoryItem" where
  "history_item clientID rec ply =
     \<lparr>Ply = ply,
      UCI = rec_UCI rec,
      FromSq = take 2 (rec_UCI rec),
      ToSq = take 2 (drop 2 (rec_UCI rec)),
      Promotion = (if length (rec_UCI rec) = 5 then Some (drop 4 (rec_UCI rec)) else None),
      ClientID = clientID,
      FENBefore = rec_FENBefore rec,
      FENAfter = rec_FENAfter rec,
      item_CreatedAt = rec_CreatedAt rec\<rparr>"

section \<open>The transactional store (package postgres)\<close>

text \<open>
  The three tables of the migrations are lists of rows. A row of \<open>games\<close> has the columns
  that \<open>scanGame\<close> reads into a \<open>Game\<close>, so it is a \<open>Game\<close>. The SQL statements are
  run one after the other on a working copy of the database; the copy becomes the
  database at \<open>tx.Commit\<close>, and every return before it leaves the database as it was
  (\<open>defer tx.Rollback\<close>). No other transaction runs in between, so \<open>FOR UPDATE\<close> and
  \<open>SKIP LOCKED\<close> find no row locked.

  \<open>io k\<close> is the error of the \<open>k\<close>-th database command of a call, \<open>None\<close> when the
  command goes through: every \<open>if err != nil { return err }\<close> of the source is a branch.
  A constraint violation or a value that does not fit its column is such an error.
\<close>

record GamePlayerRow =
  gp_game_id :: uuid
  gp_client_id :: uuid
  gp_has_moved :: bool
  gp_created_at :: time

record MoveRow =
  mv_id :: uuid
  mv_game_id :: uuid
  mv_ply :: goint
  mv_uci :: string
  mv_from_sq :: string
  mv_to_sq :: string
  mv_promotion :: "string option"
  mv_client_id :: uuid
  mv_fen_before :: string
  mv_fen_after :: string
  mv_created_at :: time

record Database =
  games_table :: "Game list"
  game_players :: "GamePlayerRow list"
  moves :: "MoveRow list"

type_synonym io = "nat \<Rightarrow> error option"

text \<open>
  \<open>queryMoveHistory\<close> with the scan loop of \<open>fetchMoveHistory\<close>: the moves of the game,
  \<open>ORDER BY ply ASC\<close> (a signed column).
\<close>

definition fetchMoveHistory :: "Database \<Rightarrow> uuid \<Rightarrow> MoveHistoryItem list" where
  "fetchMoveHistory db gameID =
     map (\<lambda>r. \<lparr>Ply = mv_ply r, UCI = mv_uci r, FromSq = mv_from_sq r, ToSq = mv_to_sq r,
               Promotion = mv_promotion r, ClientID = mv_client_id r,
               FENBefore = mv_fen_before r, FENAfter = mv_fen_after r,
               item_CreatedAt = mv_created_at r\<rparr>)
       (sort_key (\<lambda>r. sint (mv_ply r)) (filter (\<lambda>r. mv_game_id r = gameID) (moves db)))"

text \<open>
  The \<open>WHERE\<close> clause of \<open>queryClaimNextGame\<close>:
  \<open>status IN ('waiting', 'ongoing') AND NOT EXISTS (SELECT 1 FROM game_players
  WHERE game_id = games.id AND client_id = $1)\<close>.
\<close>

definition claimable :: "Database \<Rightarrow> uuid \<Rightarrow> Game \<Rightarrow> bool" where
  "claimable db clientID g =
     ((Status g = StatusWaiting \<or> Status g = StatusOngoing) \<and>
      \<not> (\<exists>r \<in> set (game_players db). gp_game_id r = ID g \<and> gp_client_id r = clientID))"

text \<open>
  \<open>ClaimNextGame\<close>: \<open>Begin\<close> (command 0), the select with \<open>ORDER BY created_at ASC
  LIMIT 1\<close> (1), the insert into \<open>game_players\<close> with \<open>ON CONFLICT DO NOTHING\<close> (2),
  \<open>queryActivateGame\<close> (3), \<open>fetchMoveHistory\<close> (4), \<open>Commit\<close> (5). \<open>dbnow\<close> is the
  value of SQL's \<open>NOW()\<close>.
\<close>

definition postgres_ClaimNextGame ::
  "io \<Rightarrow> time \<Rightarrow> uuid \<Rightarrow> Database \<Rightarrow> (error + (Game \<times> MoveHistoryItem list)) \<times> Database" where
  "postgres_ClaimNextGame io dbnow clientID db =
     (case io 0 of Some e \<Rightarrow> (Inl e, db) | None \<Rightarrow>
      (case io 1 of Some e \<Rightarrow> (Inl e, db) | None \<Rightarrow>
       (case sort_key CreatedAt (filter (claimable db clientID) (games_table db)) of
          [] \<Rightarrow> (Inl ErrNoGamesAvailable, db)
        | g # rest \<Rightarrow>
           (case io 2 of Some e \<Rightarrow> (Inl e, db) | None \<Rightarrow>
              if \<exists>r \<in> set (game_players db). gp_game_id r = ID g \<and> gp_client_id r = clientID
              then (Inl ErrNoGamesAvailable, db)
              else
                (let tx1 = db\<lparr>game_players := game_players db @
                             [\<lparr>gp_game_id = ID g, gp_client_id = clientID,
                               gp_has_moved = False, gp_created_at = dbnow\<rparr>]\<rparr>
                 in case io 3 of Some e \<Rightarrow> (Inl e, db) | None \<Rightarrow>
                   (let tx2 = tx1\<lparr>games_table :=
                                map (\<lambda>r. if ID r = ID g \<and> Status r = StatusWaiting
                                          then r\<lparr>Status := StatusOngoing, UpdatedAt := dbnow\<rparr>
                                          else r) (games_table tx1)\<rparr>;
                        g2 = (if Status g = StatusWaiting then g\<lparr>Status := StatusOngoing\<rparr> else g)
                    in case io 4 of Some e \<Rightarrow> (Inl e, db) | None \<Rightarrow>
                      (let hist = fetchMoveHistory tx2 (ID g2)
                       in case io 5 of Some e \<Rightarrow> (Inl e, db) | None \<Rightarrow>
                            (Inr (g2, hist), tx2))))))))"

text \<open>
  \<open>PersistMove\<close>: \<open>Begin\<close> (command 0), \<open>queryGetGamePlayer\<close> (1), \<open>queryInsertMove\<close>
  (2), \<open>queryUpdateGame\<close> with \<open>WHERE id = $10 AND state_version = $11\<close> (3),
  \<open>queryMarkMoved\<close> (4), \<open>fetchMoveHistory\<close> (5), \<open>Commit\<close> (6).
\<close>

definition postgres_PersistMove ::
  "io \<Rightarrow> uuid \<Rightarrow> uuid \<Rightarrow> Game \<Rightarrow> MoveRecord \<Rightarrow> goint \<Rightarrow> Database
     \<Rightarrow> (error + MoveHistoryItem list) \<times> Database" where
  "postgres_PersistMove io gameID clientID newGame rec ply db =
     (case io 0 of Some e \<Rightarrow> (Inl e, db) | None \<Rightarrow>
      (case io 1 of Some e \<Rightarrow> (Inl e, db) | None \<Rightarrow>
       (case find (\<lambda>r. gp_game_id r = gameID \<and> gp_client_id r = clientID) (game_players db) of
          None \<Rightarrow> (Inl ErrNotAssigned, db)
        | Some row \<Rightarrow>
           if gp_has_moved row then (Inl ErrAlreadyMoved, db)
           else if length (rec_UCI rec) < 2 then (Inl PanicSliceBounds, db)
           else if length (rec_UCI rec) < 4 then (Inl PanicSliceBounds, db)
           else
             (let fromSq = take 2 (rec_UCI rec);
                  toSq = take 2 (drop 2 (rec_UCI rec));
                  promotion = (if length (rec_UCI rec) = 5
                               then Some (drop 4 (rec_UCI rec)) else None)
              in case io 2 of Some e \<Rightarrow> (Inl e, db) | None \<Rightarrow>
                (let tx1 = db\<lparr>moves := moves db @
                             [\<lparr>mv_id = rec_ID rec, mv_game_id = gameID, mv_ply = ply,
                               mv_uci = rec_UCI rec, mv_from_sq = fromSq, mv_to_sq = toSq,
                               mv_promotion = promotion, mv_client_id = clientID,
                               mv_fen_before = rec_FENBefore rec,
                               mv_fen_after = rec_FENAfter rec,
                               mv_created_at = rec_CreatedAt rec\<rparr>]\<rparr>;
                     expectedVersion = StateVersion newGame - 1
                 in case io 3 of Some e \<Rightarrow> (Inl e, db) | None \<Rightarrow>
                   if length (filter (\<lambda>r. ID r = gameID \<and> StateVersion r = expectedVersion)
                                (games_table tx1)) = 0
                   then (Inl ErrVersionConflict, db)
                   else
                     (let tx2 = tx1\<lparr>games_table :=
                                  map (\<lambda>r. if ID r = gameID \<and> StateVersion r = expectedVersion
                                            then r\<lparr>Status := Status newGame,
                                                   Result := Result newGame,
                                                   FEN := FEN newGame,
                                                   SideToMove := SideToMove newGame,
                                                   PlyCount := PlyCount newGame,
                                                   LastMoveUCI := LastMoveUCI newGame,
                                                   LastMoveAt := LastMoveAt newGame,
                                                   StateVersion := StateVersion newGame,
                                                   UpdatedAt := UpdatedAt newGame\<rparr>
                                            else r) (games_table tx1)\<rparr>
                      in case io 4 of Some e \<Rightarrow> (Inl e, db) | None \<Rightarrow>
                        (let tx3 = tx2\<lparr>game_players :=
                                     map (\<lambda>r. if gp_game_id r = gameID \<and> gp_client_id r = clientID
                                               then r\<lparr>gp_has_moved := True\<rparr> else r)
                                       (game_players tx2)\<rparr>
                         in case io 5 of Some e \<Rightarrow> (Inl e, db) | None \<Rightarrow>
                           (let hist = fetchMoveHistory tx3 gameID
                            in case io 6 of Some e \<Rightarrow> (Inl e, db) | None \<Rightarrow>
                                 (Inr hist, tx3)))))))))"

text \<open>
  The Assignment rows of the data model, as the table \<open>game_players\<close> holds them. The
  primary key (game_id, client_id) allows one row for a pair; \<open>QueryRow\<close> reads the first.
\<close>

definition assignment_row :: "Database \<Rightarrow> uuid \<Rightarrow> uuid \<Rightarrow> GamePlayerRow option" where
  "assignment_row db gameID clientID =
     find (\<lambda>r. gp_game_id r = gameID \<and> gp_client_id r = clientID) (game_players db)"

text \<open>The rows that the three writes of \<open>PersistMove\<close> produce.\<close>

definition move_row :: "uuid \<Rightarrow> uuid \<Rightarrow> MoveRecord \<Rightarrow> goint \<Rightarrow> MoveRow" where
  "move_row gameID clientID rec ply =
     \<lparr>mv_id = rec_ID rec, mv_game_id = gameID, mv_ply = ply, mv_uci = rec_UCI rec,
      mv_from_sq = take 2 (rec_UCI rec), mv_to_sq = take 2 (drop 2 (rec_UCI rec)),
      mv_promotion = (if length (rec_UCI rec) = 5 then Some (drop 4 (rec_UCI rec)) else None),
      mv_client_id = clientID, mv_fen_before = rec_FENBefore rec,
      mv_fen_after = rec_FENAfter rec, mv_created_at = rec_CreatedAt rec\<rparr>"

definition update_game_row :: "uuid \<Rightarrow> Game \<Rightarrow> Game \<Rightarrow> Game" where
  "update_game_row gameID newGame r =
     (if ID r = gameID \<and> StateVersion r = StateVersion newGame - 1
      then r\<lparr>Status := Status newGame, Result := Result newGame, FEN := FEN newGame,
             SideToMove := SideToMove newGame, PlyCount := PlyCount newGame,
             LastMoveUCI := LastMoveUCI newGame, LastMoveAt := LastMoveAt newGame,
             StateVersion := StateVersion newGame, UpdatedAt := UpdatedAt newGame\<rparr>
      else r)"

definition mark_moved_row :: "uuid \<Rightarrow> uuid \<Rightarrow> GamePlayerRow \<Rightarrow> GamePlayerRow" where
  "mark_moved_row gameID clientID r =
     (if gp_game_id r = gameID \<and> gp_client_id r = clientID then r\<lparr>gp_has_moved := True\<rparr> else r)"

section \<open>The persistence port (package ports)\<close>

text \<open>
  The interface \<open>GameStore\<close>, as the use cases call it: a record of operations over a
  backend state \<open>'s\<close>. Every operation returns its result and the state it leaves.
\<close>

record 's GameStore =
  GetByID :: "uuid \<Rightarrow> 's \<Rightarrow> (error + Game) \<times> 's"
  CreateWaitingBatch :: "goint \<Rightarrow> 's \<Rightarrow> error option \<times> 's"
  ClaimNextGame :: "uuid \<Rightarrow> 's \<Rightarrow> (error + (Game \<times> MoveHistoryItem list)) \<times> 's"
  PersistMove ::
    "uuid \<Rightarrow> uuid \<Rightarrow> Game \<Rightarrow> MoveRecord \<Rightarrow> goint \<Rightarrow> 's \<Rightarrow> (error + MoveHistoryItem list) \<times> 's"

text \<open>
  The in-memory store behind the port. \<open>order s\<close> is the iteration order Go picks for the
  map of state \<open>s\<close>.
\<close>

definition MemoryStore ::
  "'p chess \<Rightarrow> (Store \<Rightarrow> uuid list) \<Rightarrow> (nat \<Rightarrow> uuid) \<Rightarrow> time \<Rightarrow> Store GameStore" where
  "MemoryStore lib order ids now =
     \<lparr>GetByID = (\<lambda>gid s. (memory_GetByID gid s, s)),
      CreateWaitingBatch = (\<lambda>count s. (None, memory_CreateWaitingBatch lib ids now count s)),
      ClaimNextGame = (\<lambda>clientID s. memory_ClaimNextGame (order s) clientID s),
      PersistMove = memory_PersistMove\<rparr>"

text \<open>
  To state which operations of the port a use case invokes, and in which order, a store
  is wrapped so that every operation appends its call to a log kept beside the state.
\<close>

datatype call =
    CallGetByID uuid
  | CallCreateWaitingBatch goint
  | CallClaimNextGame uuid
  | CallPersistMove uuid uuid Game MoveRecord goint

definition recording :: "'s GameStore \<Rightarrow> ('s \<times> call list) GameStore" where
  "recording store =
     \<lparr>GetByID = (\<lambda>gid (s, log).
        (fst (GetByID store gid s), (snd (GetByID store gid s), log @ [CallGetByID gid]))),
      CreateWaitingBatch = (\<lambda>count (s, log).
        (fst (CreateWaitingBatch store count s),
         (snd (CreateWaitingBatch store count s), log @ [CallCreateWaitingBatch count]))),
      ClaimNextGame = (\<lambda>clientID (s, log).
        (fst (ClaimNextGame store clientID s),
         (snd (ClaimNextGame store clientID s), log @ [CallClaimNextGame clientID]))),
      PersistMove = (\<lambda>gameID clientID newGame rec ply (s, log).
        (fst (PersistMove store gameID clientID newGame rec ply s),
         (snd (PersistMove store gameID clientID newGame rec ply s),
          log @ [CallPersistMove gameID clientID newGame rec ply])))\<rparr>"

section \<open>The use cases (package usecase)\<close>

text \<open>
  The rate limiter is the opaque predicate \<open>Allow(ip, token)\<close>. \<open>errors.Is\<close> on the
  sentinel errors is equality.
\<close>

type_synonym RateLimiter = "string \<Rightarrow> string \<Rightarrow> bool"

definition AlwaysAllow :: RateLimiter where
  "AlwaysAllow ip token = True"

record NextGameResult =
  next_Game :: Game
  next_History :: "MoveHistoryItem list"

definition GetNext ::
  "'s GameStore \<Rightarrow> RateLimiter \<Rightarrow> goint \<Rightarrow> string \<Rightarrow> string \<Rightarrow> uuid \<Rightarrow> 's
     \<Rightarrow> (error + NextGameResult) \<times> 's" where
  "GetNext store rl batchSize ip token clientID s =
     (if \<not> rl ip token then (Inl ErrRateLimited, s)
      else
        (case ClaimNextGame store clientID s of
           (Inr (g, hist), s1) \<Rightarrow> (Inr \<lparr>next_Game = g, next_History = hist\<rparr>, s1)
         | (Inl err, s1) \<Rightarrow>
             if err \<noteq> ErrNoGamesAvailable then (Inl err, s1)
             else
               (case CreateWaitingBatch store batchSize s1 of
                  (Some createErr, s2) \<Rightarrow> (Inl createErr, s2)
                | (None, s2) \<Rightarrow>
                    (case ClaimNextGame store clientID s2 of
                       (Inl err2, s3) \<Rightarrow> (Inl err2, s3)
                     | (Inr (g2, hist2), s3) \<Rightarrow>
                         (Inr \<lparr>next_Game = g2, next_History = hist2\<rparr>, s3)))))"

record SubmitMoveRequest =
  req_UCI :: string
  ExpectedVersion :: goint
  ClientNonce :: "string option"

record SubmitMoveResult =
  Move :: MoveRecord
  res_Game :: Game
  res_History :: "MoveHistoryItem list"
  ShouldFetchNext :: bool

text \<open>
  \<open>SubmitMove\<close>; \<open>now\<close> is the value of \<open>time.Now()\<close> and \<open>newID\<close> that of the
  \<open>uuid.New()\<close> inside \<open>ApplyMove\<close>.
\<close>

definition SubmitMove ::
  "'p chess \<Rightarrow> 's GameStore \<Rightarrow> RateLimiter \<Rightarrow> uuid \<Rightarrow> time \<Rightarrow> string \<Rightarrow> string \<Rightarrow> uuid \<Rightarrow> uuid
     \<Rightarrow> SubmitMoveRequest \<Rightarrow> 's \<Rightarrow> (error + SubmitMoveResult) \<times> 's" where
  "SubmitMove lib store rl newID now ip token gameID clientID req s =
     (if \<not> rl ip token then (Inl ErrRateLimited, s)
      else
        (case GetByID store gameID s of
           (Inl err, s1) \<Rightarrow> (Inl err, s1)
         | (Inr g, s1) \<Rightarrow>
             if StateVersion g \<noteq> ExpectedVersion req then (Inl ErrVersionConflict, s1)
             else
               (case ApplyMove lib newID g (req_UCI req) now of
                  Inl err \<Rightarrow> (Inl err, s1)
                | Inr (newGame, rec) \<Rightarrow>
                    (let ply = PlyCount newGame - 1
                     in case PersistMove store gameID clientID newGame rec ply s1 of
                          (Inl err, s2) \<Rightarrow> (Inl err, s2)
                        | (Inr hist, s2) \<Rightarrow>
                            (Inr \<lparr>Move = rec,
                                  res_Game = newGame,
                                  res_History = hist,
                                  ShouldFetchNext = (Status newGame \<noteq> StatusOngoing)\<rparr>, s2)))))"

text \<open>
  \<open>SubmitMove\<close> calls the store twice: \<open>GetByID\<close> and, after the version check and
  \<open>ApplyMove\<close>, \<open>PersistMove\<close>. It holds no lock between the two calls.
  \<open>SubmitMove_prepare\<close> is the function up to the arguments of \<open>PersistMove\<close>,
  \<open>SubmitMove_commit\<close> is the call of \<open>PersistMove\<close> with what follows it.
\<close>

record PendingMove =
  pm_gameID :: uuid
  pm_clientID :: uuid
  pm_newGame :: Game
  pm_rec :: MoveRecord
  pm_ply :: goint

definition SubmitMove_prepare ::
  "'p chess \<Rightarrow> 's GameStore \<Rightarrow> RateLimiter \<Rightarrow> uuid \<Rightarrow> time \<Rightarrow> string \<Rightarrow> string \<Rightarrow> uuid \<Rightarrow> uuid
     \<Rightarrow> SubmitMoveRequest \<Rightarrow> 's \<Rightarrow> (error + PendingMove) \<times> 's" where
  "SubmitMove_prepare lib store rl newID now ip token gameID clientID req s =
     (if \<not> rl ip token then (Inl ErrRateLimited, s)
      else
        (case GetByID store gameID s of
           (Inl err, s1) \<Rightarrow> (Inl err, s1)
         | (Inr g, s1) \<Rightarrow>
             if StateVersion g \<noteq> ExpectedVersion req then (Inl ErrVersionConflict, s1)
             else
               (case ApplyMove lib newID g (req_UCI req) now of
                  Inl err \<Rightarrow> (Inl err, s1)
                | Inr (newGame, rec) \<Rightarrow>
                    (Inr \<lparr>pm_gameID = gameID, pm_clientID = clientID, pm_newGame = newGame,
                          pm_rec = rec, pm_ply = PlyCount newGame - 1\<rparr>, s1))))"

definition SubmitMove_commit ::
  "'s GameStore \<Rightarrow> PendingMove \<Rightarrow> 's \<Rightarrow> (error + SubmitMoveResult) \<times> 's" where
  "SubmitMove_commit store p s1 =
     (case PersistMove store (pm_gameID p) (pm_clientID p) (pm_newGame p) (pm_rec p) (pm_ply p) s1 of
        (Inl err, s2) \<Rightarrow> (Inl err, s2)
      | (Inr hist, s2) \<Rightarrow>
          (Inr \<lparr>Move = pm_rec p,
                res_Game = pm_newGame p,
                res_History = hist,
                ShouldFetchNext = (Status (pm_newGame p) \<noteq> StatusOngoing)\<rparr>, s2))"

section \<open>Runs of the in-memory store\<close>

text \<open>
  What a running server does to the in-memory store. Every method of the store holds the
  mutex for its whole body, so a call of a method is one step. A use case holds no lock
  between its store calls, so the calls of other requests run in between: a run is a
  sequence of store calls. \<open>GetNext\<close> is a claim, or a claim, a batch and a claim. A
  \<open>SubmitMove\<close> is two steps, its \<open>GetByID\<close> (with the version check and \<open>ApplyMove\<close>,
  which touch no shared state) and its \<open>PersistMove\<close>; between them the call is pending
  with the arguments it has computed. No method assigns to a field of a stored game
  (\<open>CreateWaitingBatch\<close> and \<open>ClaimNextGame\<close> store a copy, \<open>PersistMove\<close> stores the
  successor), so the game behind the pointer that \<open>GetByID\<close> returned stays the value
  that was read. The methods that only read leave the store as it is, and no use case
  calls \<open>SaveIfVersion\<close>.

  The state of the server is the store and the pending \<open>SubmitMove\<close> calls, under the
  number of their request. An operation carries the values the environment chooses for
  it: the generated identifiers, the clock, the iteration order of the map.
  \<open>SubmitMove\<close> calls \<open>GetByID\<close> and \<open>PersistMove\<close> only, so the other parameters of
  the store behind the port do not matter to it.
\<close>

record Server =
  srv_store :: Store
  srv_pending :: "nat \<rightharpoonup> PendingMove"

definition new_server :: "Store \<Rightarrow> Server" where
  "new_server s = \<lparr>srv_store = s, srv_pending = Map.empty\<rparr>"

datatype op =
    OpCreateWaitingBatch "nat \<Rightarrow> uuid" time goint
  | OpClaimNextGame "uuid list" uuid
  | OpSubmitMove_GetByID nat uuid time string string uuid uuid SubmitMoveRequest
  | OpSubmitMove_PersistMove nat

definition submit_prepare :: "'p chess \<Rightarrow> RateLimiter \<Rightarrow> uuid \<Rightarrow> time \<Rightarrow> string \<Rightarrow> string \<Rightarrow> uuid \<Rightarrow> uuid
     \<Rightarrow> SubmitMoveRequest \<Rightarrow> Store \<Rightarrow> (error + PendingMove) \<times> Store" where
  "submit_prepare lib rl newID now ip token gameID clientID req s =
     SubmitMove_prepare lib (MemoryStore lib (\<lambda>s. []) (\<lambda>i. 0) 0) rl newID now ip token gameID
       clientID req s"

definition submit_commit :: "'p chess \<Rightarrow> PendingMove \<Rightarrow> Store \<Rightarrow> (error + SubmitMoveResult) \<times> Store" where
  "submit_commit lib p s = SubmitMove_commit (MemoryStore lib (\<lambda>s. []) (\<lambda>i. 0) 0) p s"

text \<open>The whole \<open>SubmitMove\<close> on the in-memory store, when no other call runs in between.\<close>

definition submit :: "'p chess \<Rightarrow> RateLimiter \<Rightarrow> uuid \<Rightarrow> time \<Rightarrow> string \<Rightarrow> string \<Rightarrow> uuid \<Rightarrow> uuid
     \<Rightarrow> SubmitMoveRequest \<Rightarrow> Store \<Rightarrow> (error + SubmitMoveResult) \<times> Store" where
  "submit lib rl newID now ip token gameID clientID req s =
     SubmitMove lib (MemoryStore lib (\<lambda>s. []) (\<lambda>i. 0) 0) rl newID now ip token gameID clientID req s"

fun step :: "'p chess \<Rightarrow> RateLimiter \<Rightarrow> op \<Rightarrow> Server \<Rightarrow> Server" where
  "step lib rl (OpCreateWaitingBatch ids now count) srv =
     srv\<lparr>srv_store := memory_CreateWaitingBatch lib ids now count (srv_store srv)\<rparr>"
| "step lib rl (OpClaimNextGame order clientID) srv =
     srv\<lparr>srv_store := snd (memory_ClaimNextGame order clientID (srv_store srv))\<rparr>"
| "step lib rl (OpSubmitMove_GetByID r newID now ip token gameID clientID req) srv =
     (case submit_prepare lib rl newID now ip token gameID clientID req (srv_store srv) of
        (Inl err, s1) \<Rightarrow> srv\<lparr>srv_store := s1\<rparr>
      | (Inr p, s1) \<Rightarrow> \<lparr>srv_store = s1, srv_pending = (srv_pending srv)(r \<mapsto> p)\<rparr>)"
| "step lib rl (OpSubmitMove_PersistMove r) srv =
     (case srv_pending srv r of
        None \<Rightarrow> srv
      | Some p \<Rightarrow>
          \<lparr>srv_store = snd (submit_commit lib p (srv_store srv)),
           srv_pending = (srv_pending srv)(r := None)\<rparr>)"

fun run :: "'p chess \<Rightarrow> RateLimiter \<Rightarrow> op list \<Rightarrow> Server \<Rightarrow> Server" where
  "run lib rl [] srv = srv"
| "run lib rl (x # xs) srv = run lib rl xs (step lib rl x srv)"

text \<open>
  An accepted move on game \<open>k\<close>: the \<open>PersistMove\<close> step of a pending \<open>SubmitMove\<close> for
  \<open>k\<close> that returns no error, so that the \<open>SubmitMove\<close> returns its result.
\<close>

fun accepted :: "'p chess \<Rightarrow> RateLimiter \<Rightarrow> op \<Rightarrow> Server \<Rightarrow> uuid \<Rightarrow> bool" where
  "accepted lib rl (OpSubmitMove_PersistMove r) srv k =
     (case srv_pending srv r of
        None \<Rightarrow> False
      | Some p \<Rightarrow>
          pm_gameID p = k \<and>
          (case fst (submit_commit lib p (srv_store srv)) of Inl e \<Rightarrow> False | Inr res \<Rightarrow> True))"
| "accepted lib rl x srv k = False"

fun accepted_moves :: "'p chess \<Rightarrow> RateLimiter \<Rightarrow> op list \<Rightarrow> Server \<Rightarrow> uuid \<Rightarrow> nat" where
  "accepted_moves lib rl [] srv k = 0"
| "accepted_moves lib rl (x # xs) srv k =
     (if accepted lib rl x srv k then 1 else 0) + accepted_moves lib rl xs (step lib rl x srv) k"

text \<open>
  \<open>uuid.New()\<close> returns identifiers that are not in use: every identifier generated for a
  batch is new to the store.
\<close>

fun fresh :: "op \<Rightarrow> Server \<Rightarrow> bool" where
  "fresh (OpCreateWaitingBatch ids now count) srv =
     (\<forall>i \<in> set [0..<rounds count]. games (srv_store srv) (ids i) = None)"
| "fresh x srv = True"

fun fresh_ids :: "'p chess \<Rightarrow> RateLimiter \<Rightarrow> op list \<Rightarrow> Server \<Rightarrow> bool" where
  "fresh_ids lib rl [] srv = True"
| "fresh_ids lib rl (x # xs) srv = (fresh x srv \<and> fresh_ids lib rl xs (step lib rl x srv))"

text \<open>
  Replaying a history from a position string: every item starts from the position the
  previous one reached, the library accepts its move there, and the item records the
  position the library reaches; \<open>final\<close> is the position after the last item.
\<close>

fun replays :: "'p chess \<Rightarrow> string \<Rightarrow> MoveHistoryItem list \<Rightarrow> string \<Rightarrow> bool" where
  "replays lib fen [] final = (final = fen)"
| "replays lib fen (x # xs) final =
     (FENBefore x = fen \<and>
      (case chess_FEN lib fen of
         None \<Rightarrow> False
       | Some cg \<Rightarrow>
           (case chess_MoveStr lib cg (UCI x) of
              None \<Rightarrow> False
            | Some newCG \<Rightarrow> FENAfter x = chess_String lib newCG)) \<and>
      replays lib (FENAfter x) xs final)"

text \<open>
  The invariant of the store: a game is stored under its identifier, its version and ply
  count are the length of its history, the plies of the history count from 0, and the
  history replays from the initial position to the game's position; a key without a
  game has no history.
\<close>

definition game_inv :: "'p chess \<Rightarrow> Store \<Rightarrow> uuid \<Rightarrow> Game \<Rightarrow> bool" where
  "game_inv lib s k g =
     (ID g = k \<and>
      StateVersion g = of_nat (length (history_of s k)) \<and>
      PlyCount g = of_nat (length (history_of s k)) \<and>
      (\<forall>i < length (history_of s k). Ply (history_of s k ! i) = of_nat i) \<and>
      replays lib (chess_String lib (chess_NewGame lib)) (history_of s k) (FEN g))"

definition store_inv :: "'p chess \<Rightarrow> Store \<Rightarrow> bool" where
  "store_inv lib s =
     (\<forall>k. case games s k of None \<Rightarrow> history_of s k = [] | Some g \<Rightarrow> game_inv lib s k g)"

text \<open>
  The invariant of a pending \<open>SubmitMove\<close>: its successor and move record are the result
  of \<open>ApplyMove\<close> on a game that was stored when the history had \<open>n\<close> items, and whose
  position is the one these \<open>n\<close> items replay to.
\<close>

definition pending_inv :: "'p chess \<Rightarrow> Store \<Rightarrow> PendingMove \<Rightarrow> bool" where
  "pending_inv lib s p =
     (\<exists>g newID uci now n.
        ApplyMove lib newID g uci now = Inr (pm_newGame p, pm_rec p) \<and>
        pm_ply p = PlyCount (pm_newGame p) - 1 \<and>
        ID g = pm_gameID p \<and>
        n \<le> length (history_of s (pm_gameID p)) \<and>
        StateVersion g = of_nat n \<and>
        PlyCount g = of_nat n \<and>
        replays lib (chess_String lib (chess_NewGame lib))
          (take n (history_of s (pm_gameID p))) (FEN g))"

definition server_inv :: "'p chess \<Rightarrow> Server \<Rightarrow> bool" where
  "server_inv lib srv =
     (store_inv lib (srv_store srv) \<and>
      (\<forall>r p. srv_pending srv r = Some p \<longrightarrow> pending_inv lib (srv_store srv) p))"

text \<open>Concrete stores on which the definitions are evaluated.\<close>

definition example_store :: Store where
  "example_store =
     \<lparr>games = [1 \<mapsto> NewGame fragment 1 0], assigned = [1 \<mapsto> {5}],
      moved = Map.empty, history = Map.empty\<rparr>"

definition example_newGame :: Game where
  "example_newGame =
     \<lparr>ID = 1, Status = StatusOngoing, Result = None, FEN = fen_e4, SideToMove = ''black'',
      PlyCount = 1, LastMoveUCI = Some ''e2e4'', LastMoveAt = Some 5, StateVersion = 1,
      CreatedAt = 0, UpdatedAt = 5\<rparr>"

definition example_rec :: MoveRecord where
  "example_rec =
     \<lparr>rec_ID = 7, rec_UCI = ''e2e4'', rec_FENBefore = initialFEN, rec_FENAfter = fen_e4,
      rec_CreatedAt = 5\<rparr>"

definition example_db :: Database where
  "example_db =
     \<lparr>games_table = [NewGame fragment 1 0],
      game_players = [\<lparr>gp_game_id = 1, gp_client_id = 5, gp_has_moved = False,
                       gp_created_at = 0\<rparr>],
      moves = []\<rparr>"

definition two_clients_store :: Store where
  "two_clients_store = example_store\<lparr>assigned := [1 \<mapsto> {5, 6}]\<rparr>"

definition two_clients_db :: Database where
  "two_clients_db =
     example_db\<lparr>game_players :=
       [\<lparr>gp_game_id = 1, gp_client_id = 5, gp_has_moved = False, gp_created_at = 0\<rparr>,
        \<lparr>gp_game_id = 1, gp_client_id = 6, gp_has_moved = False, gp_created_at = 0\<rparr>]\<rparr>"

text \<open>
  Two waiting games, the first created at time 10 and the second at time 20, as two calls
  of \<open>CreateWaitingBatch\<close> leave them.
\<close>

definition two_games_store :: Store where
  "two_games_store =
     \<lparr>games = [1 \<mapsto> (NewGame fragment 1 10)\<lparr>Status := StatusWaiting\<rparr>,
               2 \<mapsto> (NewGame fragment 2 20)\<lparr>Status := StatusWaiting\<rparr>],
      assigned = Map.empty, moved = Map.empty, history = Map.empty\<rparr>"

definition two_games_db :: Database where
  "two_games_db =
     \<lparr>games_table = [(NewGame fragment 2 20)\<lparr>Status := StatusWaiting\<rparr>,
                      (NewGame fragment 1 10)\<lparr>Status := StatusWaiting\<rparr>],
      game_players = [], moves = []\<rparr>"

definition empty_store :: Store where
  "empty_store = \<lparr>games = Map.empty, assigned = Map.empty, moved = Map.empty,
     history = Map.empty\<rparr>"

text \<open>
  An in-memory store behind the port whose iterations visit the keys 1, 2, 3 in this
  order and whose batches are generated with the identifiers 1, 2, ... at time 0.
\<close>

definition example_port :: "Store GameStore" where
  "example_port = MemoryStore fragment (\<lambda>s. [1, 2, 3]) (\<lambda>i. of_nat i + 1) 0"

definition stale_request :: SubmitMoveRequest where
  "stale_request = \<lparr>req_UCI = ''zzzz'', ExpectedVersion = 99, ClientNonce = None\<rparr>"

text \<open>
  A run on a store seeded with one game. Clients 5 and 6 claim the game. Client 5 submits
  e2e4 and client 6 submits f2f3, both against version 0: both calls read the game before
  either writes. The move of client 5 is written; the write of client 6 is refused. Then
  client 6 submits e7e5 against version 1.
\<close>

definition example_request :: SubmitMoveRequest where
  "example_request = \<lparr>req_UCI = ''e2e4'', ExpectedVersion = 0, ClientNonce = None\<rparr>"

definition f3_request :: SubmitMoveRequest where
  "f3_request = \<lparr>req_UCI = ''f2f3'', ExpectedVersion = 0, ClientNonce = None\<rparr>"

definition e5_request :: SubmitMoveRequest where
  "e5_request = \<lparr>req_UCI = ''e7e5'', ExpectedVersion = 1, ClientNonce = None\<rparr>"

definition example_run :: "op list" where
  "example_run =
     [OpClaimNextGame [1] 5,
      OpClaimNextGame [1] 6,
      OpSubmitMove_GetByID 0 7 5 ''10.0.0.1'' ''token'' 1 5 example_request,
      OpSubmitMove_GetByID 1 8 6 ''10.0.0.2'' ''token'' 1 6 f3_request,
      OpSubmitMove_PersistMove 0,
      OpSubmitMove_PersistMove 1,
      OpSubmitMove_GetByID 2 9 7 ''10.0.0.2'' ''token'' 1 6 e5_request,
      OpSubmitMove_PersistMove 2]"

definition seeded_store :: Store where
  "seeded_store = memory_New fragment (\<lambda>i. 1) 0 1"

definition f3_newGame :: Game where
  "f3_newGame =
     \<lparr>ID = 1, Status = StatusOngoing, Result = None, FEN = fen_f3, SideToMove = ''black'',
      PlyCount = 1, LastMoveUCI = Some ''f2f3'', LastMoveAt = Some 6, StateVersion = 1,
      CreatedAt = 0, UpdatedAt = 6\<rparr>"

definition f3_rec :: MoveRecord where
  "f3_rec =
     \<lparr>rec_ID = 8, rec_UCI = ''f2f3'', rec_FENBefore = initialFEN, rec_FENAfter = fen_f3,
      rec_CreatedAt = 6\<rparr>"

definition e5_newGame :: Game where
  "e5_newGame =
     \<lparr>ID = 1, Status = StatusOngoing, Result = None, FEN = fen_e4e5, SideToMove = ''white'',
      PlyCount = 2, LastMoveUCI = Some ''e7e5'', LastMoveAt = Some 7, StateVersion = 2,
      CreatedAt = 0, UpdatedAt = 7\<rparr>"

definition e5_rec :: MoveRecord where
  "e5_rec =
     \<lparr>rec_ID = 9, rec_UCI = ''e7e5'', rec_FENBefore = fen_e4, rec_FENAfter = fen_e4e5,
      rec_CreatedAt = 7\<rparr>"

definition pending_e4 :: PendingMove where
  "pending_e4 = \<lparr>pm_gameID = 1, pm_clientID = 5, pm_newGame = example_newGame,
     pm_rec = example_rec, pm_ply = 0\<rparr>"

definition pending_f3 :: PendingMove where
  "pending_f3 = \<lparr>pm_gameID = 1, pm_clientID = 6, pm_newGame = f3_newGame,
     pm_rec = f3_rec, pm_ply = 0\<rparr>"

definition pending_e5 :: PendingMove where
  "pending_e5 = \<lparr>pm_gameID = 1, pm_clientID = 6, pm_newGame = e5_newGame,
     pm_rec = e5_rec, pm_ply = 1\<rparr>"

definition moved_store :: Store where
  "moved_store =
     two_clients_store\<lparr>games := (games two_clients_store)(1 \<mapsto> example_newGame),
       moved := (moved two_clients_store)(1 \<mapsto> {5}),
       history := (history two_clients_store)(1 \<mapsto> [history_item 5 example_rec 0])\<rparr>"

definition final_store :: Store where
  "final_store =
     moved_store\<lparr>games := (games moved_store)(1 \<mapsto> e5_newGame),
       moved := (moved moved_store)(1 \<mapsto> {5, 6}),
       history := (history moved_store)(1 \<mapsto>
         [history_item 5 example_rec 0, history_item 6 e5_rec 1])\<rparr>"

text \<open>A game one move before the mate, and the game after it.\<close>

definition before_mate :: Game where
  "before_mate =
     \<lparr>ID = 1, Status = StatusOngoing, Result = None, FEN = fen_g4, SideToMove = ''black'',
      PlyCount = 3, LastMoveUCI = Some ''g2g4'', LastMoveAt = Some 8, StateVersion = 3,
      CreatedAt = 0, UpdatedAt = 8\<rparr>"

definition after_mate :: Game where
  "after_mate =
     \<lparr>ID = 1, Status = StatusCheckmate, Result = Some ResultBlack, FEN = fen_mate,
      SideToMove = ''white'', PlyCount = 4, LastMoveUCI = Some ''d8h4'', LastMoveAt = Some 9,
      StateVersion = 4, CreatedAt = 0, UpdatedAt = 9\<rparr>"

definition no_failure :: io where
  "no_failure k = None"

section \<open>Properties of the rule engine\<close>

lemma byte_eqD: "byte c = byte d \<Longrightarrow> c = d"
  unfolding byte_def by (metis char_of_char)

lemma file_range: "(\<not> (byte c < byte CHR ''a'' \<or> byte c > byte CHR ''h'')) = (c \<in> set ''abcdefgh'')"
proof
  assume "\<not> (byte c < byte CHR ''a'' \<or> byte c > byte CHR ''h'')"
  then have "97 \<le> byte c \<and> byte c \<le> 104"
    by (simp add: byte_def not_less)
  then have "byte c = 97 \<or> byte c = 98 \<or> byte c = 99 \<or> byte c = 100 \<or>
             byte c = 101 \<or> byte c = 102 \<or> byte c = 103 \<or> byte c = 104"
    by arith
  then have "byte c = byte CHR ''a'' \<or> byte c = byte CHR ''b'' \<or> byte c = byte CHR ''c'' \<or>
             byte c = byte CHR ''d'' \<or> byte c = byte CHR ''e'' \<or> byte c = byte CHR ''f'' \<or>
             byte c = byte CHR ''g'' \<or> byte c = byte CHR ''h''"
    by (simp add: byte_def)
  then show "c \<in> set ''abcdefgh''"
    using byte_eqD by auto
next
  assume "c \<in> set ''abcdefgh''"
  then show "\<not> (byte c < byte CHR ''a'' \<or> byte c > byte CHR ''h'')"
    by (auto simp: byte_def)
qed

lemma rank_range: "(\<not> (byte c < byte CHR ''1'' \<or> byte c > byte CHR ''8'')) = (c \<in> set ''12345678'')"
proof
  assume "\<not> (byte c < byte CHR ''1'' \<or> byte c > byte CHR ''8'')"
  then have "49 \<le> byte c \<and> byte c \<le> 56"
    by (simp add: byte_def not_less)
  then have "byte c = 49 \<or> byte c = 50 \<or> byte c = 51 \<or> byte c = 52 \<or>
             byte c = 53 \<or> byte c = 54 \<or> byte c = 55 \<or> byte c = 56"
    by arith
  then have "byte c = byte CHR ''1'' \<or> byte c = byte CHR ''2'' \<or> byte c = byte CHR ''3'' \<or>
             byte c = byte CHR ''4'' \<or> byte c = byte CHR ''5'' \<or> byte c = byte CHR ''6'' \<or>
             byte c = byte CHR ''7'' \<or> byte c = byte CHR ''8''"
    by (simp add: byte_def)
  then show "c \<in> set ''12345678''"
    using byte_eqD by auto
next
  assume "c \<in> set ''12345678''"
  then show "\<not> (byte c < byte CHR ''1'' \<or> byte c > byte CHR ''8'')"
    by (auto simp: byte_def)
qed

lemma promotion_set:
  "(c = CHR ''q'' \<or> c = CHR ''r'' \<or> c = CHR ''b'' \<or> c = CHR ''n'') = (c \<in> set ''qrbn'')"
  by auto

lemma isValidUCISyntax_unfold:
  "isValidUCISyntax s =
     ((\<not> (length s < 4 \<or> length s > 5)) \<and>
      \<not> (byte (s ! 0) < byte CHR ''a'' \<or> byte (s ! 0) > byte CHR ''h'') \<and>
      \<not> (byte (s ! 1) < byte CHR ''1'' \<or> byte (s ! 1) > byte CHR ''8'') \<and>
      \<not> (byte (s ! 2) < byte CHR ''a'' \<or> byte (s ! 2) > byte CHR ''h'') \<and>
      \<not> (byte (s ! 3) < byte CHR ''1'' \<or> byte (s ! 3) > byte CHR ''8'') \<and>
      (length s = 5 \<longrightarrow>
         (s ! 4 = CHR ''q'' \<or> s ! 4 = CHR ''r'' \<or> s ! 4 = CHR ''b'' \<or> s ! 4 = CHR ''n'')))"
  unfolding isValidUCISyntax_def by (simp only: if_False if_True split: if_split) blast

lemma isValidUCISyntax_iff: "isValidUCISyntax s = wellformed_coordinate_notation s"
proof -
  have len: "(\<not> (length s < 4 \<or> length s > 5)) = (length s = 4 \<or> length s = 5)"
    by arith
  show ?thesis
    unfolding isValidUCISyntax_unfold wellformed_coordinate_notation_def
    by (simp only: len file_range rank_range promotion_set)
qed


lemma status_consts [simp]:
  "StatusWaiting \<noteq> StatusOngoing" "StatusOngoing \<noteq> StatusWaiting"
  by (simp_all add: StatusWaiting_def StatusOngoing_def)

text \<open>
  Claim C6. \<open>ApplyMove\<close> rejects with \<open>ErrGameNotOngoing\<close> exactly when the status is
  neither waiting nor ongoing; for the other games it rejects with \<open>ErrInvalidUCI\<close>
  exactly when the move string is not well-formed coordinate notation (4 or 5 characters,
  files a-h, ranks 1-8, an optional promotion piece among q, r, b, n); and for those,
  when the library parses the stored position string, it rejects with \<open>ErrIllegalMove\<close>
  exactly when the library refuses the move in that position.
\<close>

theorem ApplyMove_rejections:
  "((ApplyMove lib newID g uci now = Inl ErrGameNotOngoing) =
      (Status g \<notin> {StatusWaiting, StatusOngoing})) \<and>
   (Status g \<in> {StatusWaiting, StatusOngoing} \<longrightarrow>
      ((ApplyMove lib newID g uci now = Inl ErrInvalidUCI) =
         (\<not> wellformed_coordinate_notation uci))) \<and>
   (Status g \<in> {StatusWaiting, StatusOngoing} \<longrightarrow> wellformed_coordinate_notation uci \<longrightarrow>
      chess_FEN lib (FEN g) = Some cg \<longrightarrow>
      ((ApplyMove lib newID g uci now = Inl ErrIllegalMove) =
         (chess_MoveStr lib cg uci = None)))"
  unfolding ApplyMove_def isValidUCISyntax_iff
  by (auto simp: Let_def split: option.splits)

theorem ApplyMove_rejections_witness:
  "Status (NewGame fragment 1 0) \<in> {StatusWaiting, StatusOngoing} \<and>
   wellformed_coordinate_notation ''e2e5'' \<and>
   chess_FEN fragment (FEN (NewGame fragment 1 0)) = Some initialFEN \<and>
   chess_MoveStr fragment initialFEN ''e2e5'' = None \<and>
   ApplyMove fragment 7 (NewGame fragment 1 0) ''e2e5'' 5 = Inl ErrIllegalMove \<and>
   \<not> wellformed_coordinate_notation ''zzzz'' \<and>
   ApplyMove fragment 7 (NewGame fragment 1 0) ''zzzz'' 5 = Inl ErrInvalidUCI \<and>
   Status ((NewGame fragment 1 0)\<lparr>Status := StatusCheckmate\<rparr>) \<notin> {StatusWaiting, StatusOngoing} \<and>
   ApplyMove fragment 7 ((NewGame fragment 1 0)\<lparr>Status := StatusCheckmate\<rparr>) ''e2e4'' 5 =
     Inl ErrGameNotOngoing"
proof -
  have a: "Status (NewGame fragment 1 0) \<in> {StatusWaiting, StatusOngoing}"
    by (simp add: NewGame_def fromChessGame_def)
  have b: "wellformed_coordinate_notation ''e2e5''"
    by (simp add: wellformed_coordinate_notation_def)
  have c: "chess_FEN fragment (FEN (NewGame fragment 1 0)) = Some initialFEN"
    by (simp add: NewGame_def fromChessGame_def fragment_def)
  have d: "chess_MoveStr fragment initialFEN ''e2e5'' = None"
    by (simp add: fragment_def)
  have e: "\<not> wellformed_coordinate_notation ''zzzz''"
    by (simp add: wellformed_coordinate_notation_def)
  have f: "Status ((NewGame fragment 1 0)\<lparr>Status := StatusCheckmate\<rparr>) \<notin> {StatusWaiting, StatusOngoing}"
    by (simp add: StatusCheckmate_def StatusWaiting_def StatusOngoing_def)
  show ?thesis
    using a b c d e f
      ApplyMove_rejections [of fragment 7 "NewGame fragment 1 0" "''e2e5''" 5 initialFEN]
      ApplyMove_rejections [of fragment 7 "NewGame fragment 1 0" "''zzzz''" 5 initialFEN]
      ApplyMove_rejections [of fragment 7 "(NewGame fragment 1 0)\<lparr>Status := StatusCheckmate\<rparr>"
        "''e2e4''" 5 initialFEN]
    by blast
qed

lemma sint_succ:
  fixes x :: goint
  assumes "sint x < 2 ^ 63 - 1"
  shows "sint (x + 1) = sint x + 1"
proof -
  have lo: "- (2 ^ 63) \<le> sint x"
    using sint_ge [of x] by simp
  have "sint (x + 1) = signed_take_bit 63 (sint x + 1)"
    by (simp add: sint_word_add)
  also have "\<dots> = sint x + 1"
    using assms lo by (intro signed_take_bit_int_eq_self) auto
  finally show ?thesis .
qed

lemma outcomeToStatus_cases:
  "(outcome = WhiteWon \<and> method = Checkmate \<longrightarrow>
      outcomeToStatus outcome method = (StatusCheckmate, Some ResultWhite)) \<and>
   (outcome = BlackWon \<and> method = Checkmate \<longrightarrow>
      outcomeToStatus outcome method = (StatusCheckmate, Some ResultBlack)) \<and>
   (outcome = Draw \<and> method = Stalemate \<longrightarrow>
      outcomeToStatus outcome method = (StatusStalemate, Some ResultDraw)) \<and>
   (outcome = Draw \<and> method \<noteq> Stalemate \<longrightarrow>
      outcomeToStatus outcome method = (StatusDraw, Some ResultDraw)) \<and>
   (outcome = NoOutcome \<longrightarrow> outcomeToStatus outcome method = (StatusOngoing, None))"
  by (simp add: outcomeToStatus_def)

lemma ApplyMove_InrD:
  assumes "ApplyMove lib newID g uci now = Inr (newG, rec)"
  shows "\<exists>cg newCG.
     (Status g = StatusOngoing \<or> Status g = StatusWaiting) \<and> isValidUCISyntax uci \<and>
     chess_FEN lib (FEN g) = Some cg \<and> chess_MoveStr lib cg uci = Some newCG \<and>
     newG = \<lparr>ID = ID g,
             Status = fst (outcomeToStatus (chess_Outcome lib newCG) (chess_Method lib newCG)),
             Result = snd (outcomeToStatus (chess_Outcome lib newCG) (chess_Method lib newCG)),
             FEN = chess_String lib newCG,
             SideToMove = colorName (chess_Turn lib newCG),
             PlyCount = PlyCount g + 1,
             LastMoveUCI = Some uci,
             LastMoveAt = Some now,
             StateVersion = StateVersion g + 1,
             CreatedAt = CreatedAt g,
             UpdatedAt = now\<rparr> \<and>
     rec = \<lparr>rec_ID = newID, rec_UCI = uci, rec_FENBefore = FEN g,
            rec_FENAfter = chess_String lib newCG, rec_CreatedAt = now\<rparr>"
  using assms unfolding ApplyMove_def
  by (auto simp: Let_def split: if_splits option.splits)

lemma ApplyMove_e2e4:
  "ApplyMove fragment 7 (NewGame fragment 1 0) ''e2e4'' 5 = Inr (example_newGame, example_rec)"
  by (simp add: example_newGame_def example_rec_def ApplyMove_def NewGame_def fromChessGame_def fragment_def isValidUCISyntax_def
      byte_def outcomeToStatus_def colorName_def StatusOngoing_def StatusWaiting_def
      initialFEN_def fen_e4_def fen_f3_def fen_g4_def fen_mate_def Let_def)

lemma ApplyMove_mate:
  "ApplyMove fragment 8 before_mate ''d8h4'' 9 =
     Inr (after_mate,
          \<lparr>rec_ID = 8, rec_UCI = ''d8h4'', rec_FENBefore = fen_g4, rec_FENAfter = fen_mate,
           rec_CreatedAt = 9\<rparr>)"
  by (simp add: before_mate_def after_mate_def ApplyMove_def fragment_def isValidUCISyntax_def
      byte_def outcomeToStatus_def colorName_def StatusOngoing_def StatusWaiting_def
      fen_g4_def fen_mate_def initialFEN_def fen_e4_def fen_f3_def fen_e4e5_def fen_f3e5_def
      Let_def)

text \<open>
  Claim C7. When \<open>ApplyMove\<close> accepts a move, the game had status waiting or ongoing and
  the successor carries the position string of the library's game after the move, the
  side to move there (the string white when the library says White, black when it says
  Black), \<open>PlyCount\<close> and \<open>StateVersion\<close> one higher (in Go's wrapping \<open>int\<close>;
  as signed numbers whenever the old value is below the largest \<open>int\<close>), the identity and
  creation time of the receiver, and the status and result that \<open>outcomeToStatus\<close> gives
  for the library's outcome: checkmate with the winner's result, stalemate, draw for any
  other drawn outcome, ongoing with no result when the game has no outcome. The receiver
  is an argument that the function only reads, so it is the same value after the call.
\<close>

theorem ApplyMove_successor:
  assumes "ApplyMove lib newID g uci now = Inr (newG, rec)"
  shows "\<exists>cg newCG.
     Status g \<in> {StatusWaiting, StatusOngoing} \<and>
     chess_FEN lib (FEN g) = Some cg \<and> chess_MoveStr lib cg uci = Some newCG \<and>
     FEN newG = chess_String lib newCG \<and>
     SideToMove newG = (if chess_Turn lib newCG = White then ''white'' else ''black'') \<and>
     (chess_Turn lib newCG = White \<longrightarrow> SideToMove newG = ''white'') \<and>
     (chess_Turn lib newCG = Black \<longrightarrow> SideToMove newG = ''black'') \<and>
     PlyCount newG = PlyCount g + 1 \<and>
     StateVersion newG = StateVersion g + 1 \<and>
     (sint (PlyCount g) < 2 ^ 63 - 1 \<longrightarrow> sint (PlyCount newG) = sint (PlyCount g) + 1) \<and>
     (sint (StateVersion g) < 2 ^ 63 - 1 \<longrightarrow>
        sint (StateVersion newG) = sint (StateVersion g) + 1) \<and>
     ID newG = ID g \<and> CreatedAt newG = CreatedAt g \<and>
     LastMoveUCI newG = Some uci \<and> LastMoveAt newG = Some now \<and> UpdatedAt newG = now \<and>
     (Status newG, Result newG) =
        outcomeToStatus (chess_Outcome lib newCG) (chess_Method lib newCG) \<and>
     (chess_Outcome lib newCG = WhiteWon \<and> chess_Method lib newCG = Checkmate \<longrightarrow>
        Status newG = StatusCheckmate \<and> Result newG = Some ResultWhite) \<and>
     (chess_Outcome lib newCG = BlackWon \<and> chess_Method lib newCG = Checkmate \<longrightarrow>
        Status newG = StatusCheckmate \<and> Result newG = Some ResultBlack) \<and>
     (chess_Outcome lib newCG = Draw \<and> chess_Method lib newCG = Stalemate \<longrightarrow>
        Status newG = StatusStalemate \<and> Result newG = Some ResultDraw) \<and>
     (chess_Outcome lib newCG = Draw \<and> chess_Method lib newCG \<noteq> Stalemate \<longrightarrow>
        Status newG = StatusDraw \<and> Result newG = Some ResultDraw) \<and>
     (chess_Outcome lib newCG = NoOutcome \<longrightarrow>
        Status newG = StatusOngoing \<and> Result newG = None)"
proof -
  from ApplyMove_InrD [OF assms] obtain cg newCG where
    st: "Status g = StatusOngoing \<or> Status g = StatusWaiting" and
    fen: "chess_FEN lib (FEN g) = Some cg" and
    mv: "chess_MoveStr lib cg uci = Some newCG" and
    newG: "newG = \<lparr>ID = ID g,
             Status = fst (outcomeToStatus (chess_Outcome lib newCG) (chess_Method lib newCG)),
             Result = snd (outcomeToStatus (chess_Outcome lib newCG) (chess_Method lib newCG)),
             FEN = chess_String lib newCG,
             SideToMove = colorName (chess_Turn lib newCG),
             PlyCount = PlyCount g + 1,
             LastMoveUCI = Some uci,
             LastMoveAt = Some now,
             StateVersion = StateVersion g + 1,
             CreatedAt = CreatedAt g,
             UpdatedAt = now\<rparr>"
    by blast
  from st have st': "Status g \<in> {StatusWaiting, StatusOngoing}" by auto
  have sr: "(Status newG, Result newG) =
        outcomeToStatus (chess_Outcome lib newCG) (chess_Method lib newCG)"
    by (simp add: newG)
  have side: "SideToMove newG = (if chess_Turn lib newCG = White then ''white'' else ''black'')"
    by (simp add: newG colorName_def)
  have white: "chess_Turn lib newCG = White \<longrightarrow> SideToMove newG = ''white''"
    and black: "chess_Turn lib newCG = Black \<longrightarrow> SideToMove newG = ''black''"
    by (simp_all add: side)
  have fields: "FEN newG = chess_String lib newCG"
     "PlyCount newG = PlyCount g + 1"
     "StateVersion newG = StateVersion g + 1"
     "ID newG = ID g" "CreatedAt newG = CreatedAt g"
     "LastMoveUCI newG = Some uci" "LastMoveAt newG = Some now" "UpdatedAt newG = now"
    by (simp_all add: newG)
  have signed:
    "sint (PlyCount g) < 2 ^ 63 - 1 \<longrightarrow> sint (PlyCount newG) = sint (PlyCount g) + 1"
    "sint (StateVersion g) < 2 ^ 63 - 1 \<longrightarrow>
        sint (StateVersion newG) = sint (StateVersion g) + 1"
    using sint_succ by (simp_all add: fields)
  note cases = outcomeToStatus_cases [of "chess_Outcome lib newCG" "chess_Method lib newCG"]
  have oc1: "chess_Outcome lib newCG = WhiteWon \<and> chess_Method lib newCG = Checkmate \<longrightarrow>
        Status newG = StatusCheckmate \<and> Result newG = Some ResultWhite"
    using sr cases by (metis prod.inject)
  have oc2: "chess_Outcome lib newCG = BlackWon \<and> chess_Method lib newCG = Checkmate \<longrightarrow>
        Status newG = StatusCheckmate \<and> Result newG = Some ResultBlack"
    using sr cases by (metis prod.inject)
  have oc3: "chess_Outcome lib newCG = Draw \<and> chess_Method lib newCG = Stalemate \<longrightarrow>
        Status newG = StatusStalemate \<and> Result newG = Some ResultDraw"
    using sr cases by (metis prod.inject)
  have oc4: "chess_Outcome lib newCG = Draw \<and> chess_Method lib newCG \<noteq> Stalemate \<longrightarrow>
        Status newG = StatusDraw \<and> Result newG = Some ResultDraw"
    using sr cases by (metis prod.inject)
  have oc5: "chess_Outcome lib newCG = NoOutcome \<longrightarrow>
        Status newG = StatusOngoing \<and> Result newG = None"
    using sr cases by (metis prod.inject)
  note parts = st' fen mv fields side white black signed sr oc1 oc2 oc3 oc4 oc5
  show ?thesis
    by (intro exI [of _ cg] exI [of _ newCG] conjI) (rule parts)+
qed

theorem ApplyMove_successor_witness:
  "(\<exists>newG rec. ApplyMove fragment 7 (NewGame fragment 1 0) ''e2e4'' 5 = Inr (newG, rec) \<and>
     SideToMove (NewGame fragment 1 0) = ''white'' \<and> SideToMove newG = ''black'' \<and>
     PlyCount newG = PlyCount (NewGame fragment 1 0) + 1 \<and>
     StateVersion newG = StateVersion (NewGame fragment 1 0) + 1 \<and>
     ID newG = ID (NewGame fragment 1 0) \<and>
     Status newG = ''ongoing'' \<and> Result newG = None \<and> FEN newG = fen_e4) \<and>
   (\<exists>newG rec. ApplyMove fragment 8 before_mate ''d8h4'' 9 = Inr (newG, rec) \<and>
     SideToMove before_mate = ''black'' \<and> SideToMove newG = ''white'' \<and>
     PlyCount newG = PlyCount before_mate + 1 \<and>
     sint (PlyCount newG) = 4 \<and>
     sint (StateVersion newG) = sint (StateVersion before_mate) + 1 \<and>
     sint (StateVersion newG) = 4 \<and>
     Status newG = ''checkmate'' \<and> Result newG = Some ''0-1'' \<and> FEN newG = fen_mate)"
proof -
  have turn1: "chess_FEN fragment (FEN (NewGame fragment 1 0)) = Some initialFEN"
    "chess_MoveStr fragment initialFEN ''e2e4'' = Some fen_e4"
    "chess_Turn fragment fen_e4 = Black" "chess_Outcome fragment fen_e4 = NoOutcome"
    "chess_String fragment fen_e4 = fen_e4"
    by (simp_all add: fragment_def NewGame_def fromChessGame_def fen_e4_def fen_mate_def)
  have w0: "SideToMove (NewGame fragment 1 0) = ''white''"
    by (simp add: NewGame_def fromChessGame_def colorName_def fragment_def initialFEN_def
        fen_e4_def fen_f3_def fen_g4_def)
  have a: "\<exists>newG rec. ApplyMove fragment 7 (NewGame fragment 1 0) ''e2e4'' 5 = Inr (newG, rec) \<and>
     SideToMove (NewGame fragment 1 0) = ''white'' \<and> SideToMove newG = ''black'' \<and>
     PlyCount newG = PlyCount (NewGame fragment 1 0) + 1 \<and>
     StateVersion newG = StateVersion (NewGame fragment 1 0) + 1 \<and>
     ID newG = ID (NewGame fragment 1 0) \<and>
     Status newG = ''ongoing'' \<and> Result newG = None \<and> FEN newG = fen_e4"
    using ApplyMove_successor [OF ApplyMove_e2e4]
  proof (elim exE conjE)
    fix cg newCG
    assume t1: "chess_FEN fragment (FEN (NewGame fragment 1 0)) = Some cg"
      "chess_MoveStr fragment cg ''e2e4'' = Some newCG"
      "FEN example_newGame = chess_String fragment newCG"
      "chess_Turn fragment newCG = Black \<longrightarrow> SideToMove example_newGame = ''black''"
      "PlyCount example_newGame = PlyCount (NewGame fragment 1 0) + 1"
      "StateVersion example_newGame = StateVersion (NewGame fragment 1 0) + 1"
      "ID example_newGame = ID (NewGame fragment 1 0)"
      "chess_Outcome fragment newCG = NoOutcome \<longrightarrow>
         Status example_newGame = StatusOngoing \<and> Result example_newGame = None"
    from t1(1,2) turn1(1,2) have n1: "newCG = fen_e4"
      by simp
    show ?thesis
      using ApplyMove_e2e4 w0 t1(3-8) turn1(3,4,5) unfolding n1
      by (intro exI [of _ example_newGame] exI [of _ example_rec]) (simp add: StatusOngoing_def)
  qed
  have turn2: "chess_FEN fragment (FEN before_mate) = Some fen_g4"
    "chess_MoveStr fragment fen_g4 ''d8h4'' = Some fen_mate"
    "chess_Turn fragment fen_mate = White" "chess_Outcome fragment fen_mate = BlackWon"
    "chess_Method fragment fen_mate = Checkmate" "chess_String fragment fen_mate = fen_mate"
    by (simp_all add: fragment_def before_mate_def fen_g4_def fen_mate_def initialFEN_def
        fen_e4_def fen_f3_def fen_e4e5_def fen_f3e5_def)
  have small: "sint (StateVersion before_mate) < 2 ^ 63 - 1" "sint (PlyCount before_mate) < 2 ^ 63 - 1"
    "sint (StateVersion before_mate) = 3" "sint (PlyCount before_mate) = 3"
    "SideToMove before_mate = ''black''"
    by (simp_all add: before_mate_def)
  have b: "\<exists>newG rec. ApplyMove fragment 8 before_mate ''d8h4'' 9 = Inr (newG, rec) \<and>
     SideToMove before_mate = ''black'' \<and> SideToMove newG = ''white'' \<and>
     PlyCount newG = PlyCount before_mate + 1 \<and>
     sint (PlyCount newG) = 4 \<and>
     sint (StateVersion newG) = sint (StateVersion before_mate) + 1 \<and>
     sint (StateVersion newG) = 4 \<and>
     Status newG = ''checkmate'' \<and> Result newG = Some ''0-1'' \<and> FEN newG = fen_mate"
    using ApplyMove_successor [OF ApplyMove_mate]
  proof (elim exE conjE)
    fix cg2 newCG2
    assume t2: "chess_FEN fragment (FEN before_mate) = Some cg2"
      "chess_MoveStr fragment cg2 ''d8h4'' = Some newCG2"
      "FEN after_mate = chess_String fragment newCG2"
      "chess_Turn fragment newCG2 = White \<longrightarrow> SideToMove after_mate = ''white''"
      "PlyCount after_mate = PlyCount before_mate + 1"
      "sint (PlyCount before_mate) < 2 ^ 63 - 1 \<longrightarrow>
         sint (PlyCount after_mate) = sint (PlyCount before_mate) + 1"
      "sint (StateVersion before_mate) < 2 ^ 63 - 1 \<longrightarrow>
         sint (StateVersion after_mate) = sint (StateVersion before_mate) + 1"
      "chess_Outcome fragment newCG2 = BlackWon \<and> chess_Method fragment newCG2 = Checkmate \<longrightarrow>
         Status after_mate = StatusCheckmate \<and> Result after_mate = Some ResultBlack"
    from t2(1,2) turn2(1,2) have n2: "newCG2 = fen_mate"
      by simp
    show ?thesis
      using ApplyMove_mate small t2(3-8) turn2(3,4,5,6) unfolding n2
      by (intro exI [of _ after_mate]
          exI [of _ "\<lparr>rec_ID = 8, rec_UCI = ''d8h4'', rec_FENBefore = fen_g4,
            rec_FENAfter = fen_mate, rec_CreatedAt = 9\<rparr>"])
        (simp add: StatusCheckmate_def ResultBlack_def)
  qed
  from a b show ?thesis by (rule conjI)
qed

section \<open>Properties of the stores\<close>

lemma memory_PersistMove_NotAssigned:
  "\<not> assignment_exists s gameID clientID \<Longrightarrow>
   memory_PersistMove gameID clientID newGame rec ply s = (Inl ErrNotAssigned, s)"
  by (auto simp add: memory_PersistMove_def assignment_exists_def split: option.splits)

lemma memory_PersistMove_AlreadyMoved:
  "assignment_exists s gameID clientID \<Longrightarrow> has_moved s gameID clientID \<Longrightarrow>
   memory_PersistMove gameID clientID newGame rec ply s = (Inl ErrAlreadyMoved, s)"
  by (auto simp add: memory_PersistMove_def assignment_exists_def has_moved_def
      split: option.splits)

lemma memory_PersistMove_NotFound:
  "assignment_exists s gameID clientID \<Longrightarrow> \<not> has_moved s gameID clientID \<Longrightarrow>
   games s gameID = None \<Longrightarrow>
   memory_PersistMove gameID clientID newGame rec ply s = (Inl ErrNotFound, s)"
  by (auto simp add: memory_PersistMove_def assignment_exists_def has_moved_def
      split: option.splits)

lemma memory_PersistMove_VersionConflict:
  "assignment_exists s gameID clientID \<Longrightarrow> \<not> has_moved s gameID clientID \<Longrightarrow>
   games s gameID = Some cur \<Longrightarrow> StateVersion cur \<noteq> StateVersion newGame - 1 \<Longrightarrow>
   memory_PersistMove gameID clientID newGame rec ply s = (Inl ErrVersionConflict, s)"
  by (auto simp add: memory_PersistMove_def assignment_exists_def has_moved_def
      split: option.splits)

text \<open>The store after the three writes of a successful \<open>PersistMove\<close>.\<close>

lemma memory_PersistMove_pass:
  assumes "assignment_exists s gameID clientID" "\<not> has_moved s gameID clientID"
    "games s gameID = Some cur" "StateVersion cur = StateVersion newGame - 1"
  shows "memory_PersistMove gameID clientID newGame rec ply s =
     (if length (rec_UCI rec) < 4
      then (Inl PanicSliceBounds,
            s\<lparr>games := (games s)(gameID \<mapsto> newGame),
              moved := (moved s)(gameID \<mapsto>
                insert clientID (case moved s gameID of None \<Rightarrow> {} | Some m \<Rightarrow> m))\<rparr>)
      else (Inr (history_of s gameID @ [history_item clientID rec ply]),
            s\<lparr>games := (games s)(gameID \<mapsto> newGame),
              moved := (moved s)(gameID \<mapsto>
                insert clientID (case moved s gameID of None \<Rightarrow> {} | Some m \<Rightarrow> m)),
              history := (history s)(gameID \<mapsto>
                history_of s gameID @ [history_item clientID rec ply])\<rparr>))"
  using assms
  by (auto simp add: memory_PersistMove_def assignment_exists_def has_moved_def history_of_def
      history_item_def Let_def split: option.splits)

lemma memory_PersistMove_cases:
  "(\<not> assignment_exists s gameID clientID) \<or>
   (assignment_exists s gameID clientID \<and> has_moved s gameID clientID) \<or>
   (assignment_exists s gameID clientID \<and> \<not> has_moved s gameID clientID \<and>
      games s gameID = None) \<or>
   (assignment_exists s gameID clientID \<and> \<not> has_moved s gameID clientID \<and>
      (\<exists>cur. games s gameID = Some cur \<and> StateVersion cur \<noteq> StateVersion newGame - 1)) \<or>
   (assignment_exists s gameID clientID \<and> \<not> has_moved s gameID clientID \<and>
      (\<exists>cur. games s gameID = Some cur \<and> StateVersion cur = StateVersion newGame - 1))"
  by (cases "games s gameID") auto

lemma memory_PersistMove_error_unchanged:
  assumes "memory_PersistMove gameID clientID newGame rec ply s = (Inl e, s')"
    and "e \<noteq> PanicSliceBounds"
  shows "s' = s"
  using memory_PersistMove_cases [of s gameID clientID newGame] assms
    memory_PersistMove_NotAssigned [of s gameID clientID newGame rec ply]
    memory_PersistMove_AlreadyMoved [of s gameID clientID newGame rec ply]
    memory_PersistMove_NotFound [of s gameID clientID newGame rec ply]
    memory_PersistMove_VersionConflict [of s gameID clientID _ newGame rec ply]
    memory_PersistMove_pass [of s gameID clientID _ newGame rec ply]
  by (elim disjE conjE exE) (auto split: if_splits)

lemma memory_PersistMove_success:
  assumes "memory_PersistMove gameID clientID newGame rec ply s = (Inr h, s')"
  shows "assignment_exists s gameID clientID \<and> \<not> has_moved s gameID clientID \<and>
     (\<exists>cur. games s gameID = Some cur \<and> StateVersion cur = StateVersion newGame - 1) \<and>
     4 \<le> length (rec_UCI rec) \<and>
     h = history_of s gameID @ [history_item clientID rec ply] \<and>
     s' = s\<lparr>games := (games s)(gameID \<mapsto> newGame),
            moved := (moved s)(gameID \<mapsto>
              insert clientID (case moved s gameID of None \<Rightarrow> {} | Some m \<Rightarrow> m)),
            history := (history s)(gameID \<mapsto> h)\<rparr>"
  using memory_PersistMove_cases [of s gameID clientID newGame] assms
    memory_PersistMove_NotAssigned [of s gameID clientID newGame rec ply]
    memory_PersistMove_AlreadyMoved [of s gameID clientID newGame rec ply]
    memory_PersistMove_NotFound [of s gameID clientID newGame rec ply]
    memory_PersistMove_VersionConflict [of s gameID clientID _ newGame rec ply]
    memory_PersistMove_pass [of s gameID clientID _ newGame rec ply]
  by (elim disjE conjE exE) (auto split: if_splits)

lemma postgres_PersistMove_error_unchanged:
  assumes "postgres_PersistMove io gameID clientID newGame rec ply db = (Inl e, db')"
  shows "db' = db"
  using assms unfolding postgres_PersistMove_def
  by (simp add: Let_def split: option.splits if_splits)

lemma postgres_PersistMove_success:
  assumes "postgres_PersistMove io gameID clientID newGame rec ply db = (Inr h, db')"
  shows "(\<exists>row. assignment_row db gameID clientID = Some row \<and> \<not> gp_has_moved row) \<and>
     4 \<le> length (rec_UCI rec) \<and>
     (\<exists>r \<in> set (games_table db). ID r = gameID \<and> StateVersion r = StateVersion newGame - 1) \<and>
     db' = db\<lparr>moves := moves db @ [move_row gameID clientID rec ply],
              games_table := map (update_game_row gameID newGame) (games_table db),
              game_players := map (mark_moved_row gameID clientID) (game_players db)\<rparr> \<and>
     h = fetchMoveHistory db' gameID"
proof -
  have nz: "\<And>P xs. (length (filter P xs) \<noteq> 0) = (\<exists>x \<in> set xs. P x)"
    by (simp add: filter_empty_conv)
  have fn: "(\<lambda>r. if ID r = gameID \<and> StateVersion r = StateVersion newGame - 1
                  then r\<lparr>Status := Status newGame, Result := Result newGame, FEN := FEN newGame,
                         SideToMove := SideToMove newGame, PlyCount := PlyCount newGame,
                         LastMoveUCI := LastMoveUCI newGame, LastMoveAt := LastMoveAt newGame,
                         StateVersion := StateVersion newGame, UpdatedAt := UpdatedAt newGame\<rparr>
                  else r) = update_game_row gameID newGame"
    by (rule ext) (simp add: update_game_row_def)
  have fm: "(\<lambda>r. if gp_game_id r = gameID \<and> gp_client_id r = clientID
                  then r\<lparr>gp_has_moved := True\<rparr> else r) = mark_moved_row gameID clientID"
    by (rule ext) (simp add: mark_moved_row_def)
  show ?thesis
    using assms unfolding postgres_PersistMove_def Let_def assignment_row_def fn fm
    by (auto simp add: move_row_def nz filter_empty_conv
        split: option.splits if_splits)
qed

lemma memory_PersistMove_keeps:
  "assigned (snd (memory_PersistMove gameID clientID newGame rec ply s)) = assigned s \<and>
   (has_moved s g c \<longrightarrow> has_moved (snd (memory_PersistMove gameID clientID newGame rec ply s)) g c)"
  using memory_PersistMove_cases [of s gameID clientID newGame]
    memory_PersistMove_NotAssigned [of s gameID clientID newGame rec ply]
    memory_PersistMove_AlreadyMoved [of s gameID clientID newGame rec ply]
    memory_PersistMove_NotFound [of s gameID clientID newGame rec ply]
    memory_PersistMove_VersionConflict [of s gameID clientID _ newGame rec ply]
    memory_PersistMove_pass [of s gameID clientID _ newGame rec ply]
  by (elim disjE conjE exE) (auto simp: has_moved_def split: if_splits option.splits)

text \<open>\<open>SubmitMove\<close> is its two halves, one after the other.\<close>

lemma SubmitMove_two_calls:
  "SubmitMove lib store rl newID now ip token gameID clientID req s =
     (case SubmitMove_prepare lib store rl newID now ip token gameID clientID req s of
        (Inl err, s1) \<Rightarrow> (Inl err, s1)
      | (Inr p, s1) \<Rightarrow> SubmitMove_commit store p s1)"
  by (simp add: SubmitMove_def SubmitMove_prepare_def SubmitMove_commit_def Let_def
      split: prod.splits sum.splits)

lemma submit_two_steps:
  "submit lib rl newID now ip token gameID clientID req s =
     (case submit_prepare lib rl newID now ip token gameID clientID req s of
        (Inl err, s1) \<Rightarrow> (Inl err, s1)
      | (Inr p, s1) \<Rightarrow> submit_commit lib p s1)"
  unfolding submit_def submit_prepare_def submit_commit_def
  by (rule SubmitMove_two_calls)

text \<open>The two halves on the in-memory store, branch by branch.\<close>

lemma submit_prepare_unfold:
  "submit_prepare lib rl newID now ip token gameID clientID req s =
     (if \<not> rl ip token then (Inl ErrRateLimited, s)
      else case games s gameID of
        None \<Rightarrow> (Inl ErrNotFound, s)
      | Some g \<Rightarrow>
          if StateVersion g \<noteq> ExpectedVersion req then (Inl ErrVersionConflict, s)
          else
            (case ApplyMove lib newID g (req_UCI req) now of
               Inl err \<Rightarrow> (Inl err, s)
             | Inr (newGame, rec) \<Rightarrow>
                 (Inr \<lparr>pm_gameID = gameID, pm_clientID = clientID, pm_newGame = newGame,
                       pm_rec = rec, pm_ply = PlyCount newGame - 1\<rparr>, s)))"
  by (simp add: submit_prepare_def SubmitMove_prepare_def MemoryStore_def memory_GetByID_def
      split: option.splits sum.splits prod.splits)

lemma submit_commit_unfold:
  "submit_commit lib p s =
     (case memory_PersistMove (pm_gameID p) (pm_clientID p) (pm_newGame p) (pm_rec p) (pm_ply p) s of
        (Inl err, s2) \<Rightarrow> (Inl err, s2)
      | (Inr hist, s2) \<Rightarrow>
          (Inr \<lparr>Move = pm_rec p, res_Game = pm_newGame p, res_History = hist,
                ShouldFetchNext = (Status (pm_newGame p) \<noteq> StatusOngoing)\<rparr>, s2))"
  by (simp add: submit_commit_def SubmitMove_commit_def MemoryStore_def)

lemma snd_submit_prepare:
  "snd (submit_prepare lib rl newID now ip token gameID clientID req s) = s"
  unfolding submit_prepare_unfold
  by (simp split: option.splits sum.splits prod.splits)

lemma snd_submit_commit:
  "snd (submit_commit lib p s) =
     snd (memory_PersistMove (pm_gameID p) (pm_clientID p) (pm_newGame p) (pm_rec p) (pm_ply p) s)"
  unfolding submit_commit_unfold
  by (simp split: sum.splits prod.splits)

lemma fst_submit_commit:
  "(case fst (submit_commit lib p s) of Inl e \<Rightarrow> False | Inr res \<Rightarrow> True) =
   (case fst (memory_PersistMove (pm_gameID p) (pm_clientID p) (pm_newGame p) (pm_rec p)
        (pm_ply p) s) of Inl e \<Rightarrow> False | Inr h \<Rightarrow> True)"
  unfolding submit_commit_unfold
  by (simp split: sum.splits prod.splits)

text \<open>
  When no call is pending under the number \<open>r\<close>, the two steps of a \<open>SubmitMove\<close> one
  directly after the other leave the store that the whole \<open>SubmitMove\<close> leaves.
\<close>

lemma step_submit_atomic:
  assumes "srv_pending srv r = None"
  shows "srv_store (run lib rl [OpSubmitMove_GetByID r newID now ip token gameID clientID req,
       OpSubmitMove_PersistMove r] srv) =
     snd (submit lib rl newID now ip token gameID clientID req (srv_store srv))"
proof (cases "submit_prepare lib rl newID now ip token gameID clientID req (srv_store srv)")
  case (Pair res s1)
  have s1: "s1 = srv_store srv"
    using snd_submit_prepare [of lib rl newID now ip token gameID clientID req "srv_store srv"] Pair
    by simp
  show ?thesis
  proof (cases res)
    case (Inl e)
    with Pair s1 assms show ?thesis
      by (simp add: submit_two_steps)
  next
    case (Inr p)
    with Pair s1 show ?thesis
      by (simp add: submit_two_steps)
  qed
qed

lemma memory_ClaimNextGame_keeps:
  "moved (snd (memory_ClaimNextGame order clientID s)) = moved s \<and>
   history (snd (memory_ClaimNextGame order clientID s)) = history s \<and>
   (assignment_exists s g c \<longrightarrow> assignment_exists (snd (memory_ClaimNextGame order clientID s)) g c)"
  by (auto simp: memory_ClaimNextGame_def Let_def assignment_exists_def split: option.splits)

lemma step_keeps_moved:
  assumes "assignment_exists (srv_store srv) g c" "has_moved (srv_store srv) g c"
  shows "assignment_exists (srv_store (step lib rl x srv)) g c \<and>
     has_moved (srv_store (step lib rl x srv)) g c"
proof (cases x)
  case (OpCreateWaitingBatch ids now count)
  then show ?thesis
    using assms by (simp add: memory_CreateWaitingBatch_def assignment_exists_def has_moved_def)
next
  case (OpClaimNextGame order clientID)
  then show ?thesis
    using assms memory_ClaimNextGame_keeps [of order clientID "srv_store srv" g c]
    by (simp add: has_moved_def)
next
  case (OpSubmitMove_GetByID r newID now ip token gameID clientID req)
  have "srv_store (step lib rl x srv) = srv_store srv"
    using snd_submit_prepare [of lib rl newID now ip token gameID clientID req "srv_store srv"]
    by (auto simp: OpSubmitMove_GetByID split: prod.splits sum.splits)
  with assms show ?thesis by simp
next
  case (OpSubmitMove_PersistMove r)
  show ?thesis
  proof (cases "srv_pending srv r")
    case None
    with assms OpSubmitMove_PersistMove show ?thesis by simp
  next
    case (Some p)
    then have "srv_store (step lib rl x srv) =
        snd (memory_PersistMove (pm_gameID p) (pm_clientID p) (pm_newGame p) (pm_rec p)
          (pm_ply p) (srv_store srv))"
      by (simp add: OpSubmitMove_PersistMove snd_submit_commit)
    then show ?thesis
      using assms memory_PersistMove_keeps [of "pm_gameID p" "pm_clientID p" "pm_newGame p"
          "pm_rec p" "pm_ply p" "srv_store srv" g c]
      by (simp add: assignment_exists_def)
  qed
qed

lemma run_keeps_moved:
  "assignment_exists (srv_store srv) g c \<Longrightarrow> has_moved (srv_store srv) g c \<Longrightarrow>
   assignment_exists (srv_store (run lib rl tr srv)) g c \<and>
   has_moved (srv_store (run lib rl tr srv)) g c"
proof (induction tr arbitrary: srv)
  case Nil
  then show ?case by simp
next
  case (Cons x xs)
  then show ?case
    using step_keeps_moved [of srv g c lib rl x] by simp
qed

lemma memory_PersistMove_sets_moved:
  assumes "memory_PersistMove gameID clientID newGame rec ply s = (Inr h, s')"
  shows "assignment_exists s' gameID clientID \<and> has_moved s' gameID clientID"
  using memory_PersistMove_success [OF assms]
  by (auto simp: assignment_exists_def has_moved_def)

lemma find_map_mark:
  "find (\<lambda>r. gp_game_id r = gameID \<and> gp_client_id r = clientID) rows = Some row \<Longrightarrow>
   \<exists>row2. find (\<lambda>r. gp_game_id r = gameID \<and> gp_client_id r = clientID)
       (map (mark_moved_row gameID clientID) rows) = Some row2 \<and> gp_has_moved row2"
  by (induction rows) (auto simp: mark_moved_row_def split: if_splits)

lemma postgres_PersistMove_NotAssigned:
  "io 0 = None \<Longrightarrow> io 1 = None \<Longrightarrow> assignment_row db gameID clientID = None \<Longrightarrow>
   postgres_PersistMove io gameID clientID newGame rec ply db = (Inl ErrNotAssigned, db)"
  by (simp add: postgres_PersistMove_def assignment_row_def)

lemma postgres_PersistMove_AlreadyMoved:
  "io 0 = None \<Longrightarrow> io 1 = None \<Longrightarrow> assignment_row db gameID clientID = Some row \<Longrightarrow>
   gp_has_moved row \<Longrightarrow>
   postgres_PersistMove io gameID clientID newGame rec ply db = (Inl ErrAlreadyMoved, db)"
  by (simp add: postgres_PersistMove_def assignment_row_def)

lemma postgres_PersistMove_sets_moved:
  assumes "postgres_PersistMove io gameID clientID newGame rec ply db = (Inr h, db')"
  shows "\<exists>row. assignment_row db' gameID clientID = Some row \<and> gp_has_moved row"
proof -
  from postgres_PersistMove_success [OF assms] obtain row where
    r: "assignment_row db gameID clientID = Some row" and
    db': "db' = db\<lparr>moves := moves db @ [move_row gameID clientID rec ply],
              games_table := map (update_game_row gameID newGame) (games_table db),
              game_players := map (mark_moved_row gameID clientID) (game_players db)\<rparr>"
    by blast
  from r find_map_mark [of gameID clientID "game_players db" row]
  show ?thesis
    by (simp add: assignment_row_def db')
qed

lemma example_store_facts:
  "assignment_exists example_store 1 5" "\<not> has_moved example_store 1 5"
  "\<not> assignment_exists example_store 1 6"
  "games example_store 1 = Some (NewGame fragment 1 0)"
  "StateVersion (NewGame fragment 1 0) = StateVersion example_newGame - 1"
  "history_of example_store 1 = []"
  "length (rec_UCI example_rec) = 4"
  by (simp_all add: example_store_def assignment_exists_def has_moved_def NewGame_def
      fromChessGame_def example_newGame_def history_of_def example_rec_def)

lemma example_PersistMove:
  "memory_PersistMove 1 5 example_newGame example_rec 0 example_store =
     (Inr [history_item 5 example_rec 0],
      example_store\<lparr>games := (games example_store)(1 \<mapsto> example_newGame),
        moved := (moved example_store)(1 \<mapsto> {5}),
        history := (history example_store)(1 \<mapsto> [history_item 5 example_rec 0])\<rparr>)"
proof -
  have m: "moved example_store 1 = None"
    by (simp add: example_store_def)
  show ?thesis
    using memory_PersistMove_pass [OF example_store_facts(1) example_store_facts(2)
        example_store_facts(4) example_store_facts(5), of example_rec 0]
    by (simp add: example_store_facts m)
qed

lemma example_db_facts:
  "assignment_row example_db 1 5 =
     Some \<lparr>gp_game_id = 1, gp_client_id = 5, gp_has_moved = False, gp_created_at = 0\<rparr>"
  "assignment_row example_db 1 6 = None"
  by (simp_all add: example_db_def assignment_row_def)

lemma example_postgres_PersistMove:
  "postgres_PersistMove no_failure 1 5 example_newGame example_rec 0 example_db =
     (Inr [history_item 5 example_rec 0],
      example_db\<lparr>moves := [move_row 1 5 example_rec 0],
        games_table := [update_game_row 1 example_newGame (NewGame fragment 1 0)],
        game_players := [\<lparr>gp_game_id = 1, gp_client_id = 5, gp_has_moved = True,
                          gp_created_at = 0\<rparr>]\<rparr>)"
  by (simp add: postgres_PersistMove_def no_failure_def example_db_def example_rec_def
      example_newGame_def NewGame_def fromChessGame_def fetchMoveHistory_def history_item_def
      move_row_def update_game_row_def Let_def)

text \<open>
  Claim C1. \<open>PersistMove\<close> is atomic in both stores. In the in-memory store a call
  that returns \<open>ErrNotAssigned\<close>, \<open>ErrAlreadyMoved\<close>, \<open>ErrVersionConflict\<close> or
  \<open>ErrNotFound\<close> leaves the store as it was, and a call that succeeds has made all three
  writes: the game is replaced by the successor, the client's \<open>has_moved\<close> flag went from
  false to true, and the history of the game is the old one with the new item appended,
  which is also the result. In the transactional store every call that returns an error
  leaves the database as it was, and a call that succeeds has inserted the move row,
  updated the game row and set the flag of the Assignment row.
\<close>

theorem PersistMove_atomic:
  "(memory_PersistMove gameID clientID newGame rec ply s = (Inl e, s') \<and>
      e \<in> {ErrNotAssigned, ErrAlreadyMoved, ErrVersionConflict, ErrNotFound} \<longrightarrow> s' = s) \<and>
   (memory_PersistMove gameID clientID newGame rec ply s = (Inr h, s') \<longrightarrow>
      h = history_of s gameID @ [history_item clientID rec ply] \<and>
      s' = s\<lparr>games := (games s)(gameID \<mapsto> newGame),
             moved := (moved s)(gameID \<mapsto>
               insert clientID (case moved s gameID of None \<Rightarrow> {} | Some m \<Rightarrow> m)),
             history := (history s)(gameID \<mapsto> h)\<rparr> \<and>
      games s' gameID = Some newGame \<and> history_of s' gameID = h \<and>
      \<not> has_moved s gameID clientID \<and> has_moved s' gameID clientID) \<and>
   (postgres_PersistMove io gameID clientID newGame rec ply db = (Inl e, db') \<longrightarrow> db' = db) \<and>
   (postgres_PersistMove io gameID clientID newGame rec ply db = (Inr h, db') \<longrightarrow>
      db' = db\<lparr>moves := moves db @ [move_row gameID clientID rec ply],
               games_table := map (update_game_row gameID newGame) (games_table db),
               game_players := map (mark_moved_row gameID clientID) (game_players db)\<rparr> \<and>
      h = fetchMoveHistory db' gameID \<and>
      (\<exists>r \<in> set (games_table db). ID r = gameID \<and> StateVersion r = StateVersion newGame - 1) \<and>
      (\<exists>row. assignment_row db gameID clientID = Some row \<and> \<not> gp_has_moved row) \<and>
      (\<exists>row. assignment_row db' gameID clientID = Some row \<and> gp_has_moved row))"
proof (intro conjI impI)
  assume "memory_PersistMove gameID clientID newGame rec ply s = (Inl e, s') \<and>
      e \<in> {ErrNotAssigned, ErrAlreadyMoved, ErrVersionConflict, ErrNotFound}"
  then show "s' = s"
    using memory_PersistMove_error_unchanged [of gameID clientID newGame rec ply s e s']
    by auto
next
  assume a: "memory_PersistMove gameID clientID newGame rec ply s = (Inr h, s')"
  note ok = memory_PersistMove_success [OF a]
  show "h = history_of s gameID @ [history_item clientID rec ply]"
    using ok by simp
  show s': "s' = s\<lparr>games := (games s)(gameID \<mapsto> newGame),
             moved := (moved s)(gameID \<mapsto>
               insert clientID (case moved s gameID of None \<Rightarrow> {} | Some m \<Rightarrow> m)),
             history := (history s)(gameID \<mapsto> h)\<rparr>"
    using ok by simp
  show "games s' gameID = Some newGame"
    by (simp add: s')
  show "history_of s' gameID = h"
    by (simp add: s' history_of_def)
  show "\<not> has_moved s gameID clientID"
    using ok by simp
  show "has_moved s' gameID clientID"
    using memory_PersistMove_sets_moved [OF a] by simp
next
  assume "postgres_PersistMove io gameID clientID newGame rec ply db = (Inl e, db')"
  then show "db' = db"
    by (rule postgres_PersistMove_error_unchanged)
next
  assume a: "postgres_PersistMove io gameID clientID newGame rec ply db = (Inr h, db')"
  note ok = postgres_PersistMove_success [OF a]
  show "db' = db\<lparr>moves := moves db @ [move_row gameID clientID rec ply],
               games_table := map (update_game_row gameID newGame) (games_table db),
               game_players := map (mark_moved_row gameID clientID) (game_players db)\<rparr>"
    using ok by simp
  show "h = fetchMoveHistory db' gameID"
    using ok by simp
  show "\<exists>r \<in> set (games_table db). ID r = gameID \<and> StateVersion r = StateVersion newGame - 1"
    using ok by simp
  show "\<exists>row. assignment_row db gameID clientID = Some row \<and> \<not> gp_has_moved row"
    using ok by simp
  show "\<exists>row. assignment_row db' gameID clientID = Some row \<and> gp_has_moved row"
    by (rule postgres_PersistMove_sets_moved [OF a])
qed

theorem PersistMove_atomic_witness:
  "fst (memory_PersistMove 1 6 example_newGame example_rec 0 example_store) = Inl ErrNotAssigned \<and>
   snd (memory_PersistMove 1 6 example_newGame example_rec 0 example_store) = example_store \<and>
   fst (memory_PersistMove 1 5 example_newGame example_rec 0 example_store) =
     Inr [history_item 5 example_rec 0] \<and>
   games (snd (memory_PersistMove 1 5 example_newGame example_rec 0 example_store)) 1 =
     Some example_newGame \<and>
   has_moved (snd (memory_PersistMove 1 5 example_newGame example_rec 0 example_store)) 1 5 \<and>
   fst (postgres_PersistMove no_failure 1 6 example_newGame example_rec 0 example_db) =
     Inl ErrNotAssigned \<and>
   snd (postgres_PersistMove no_failure 1 6 example_newGame example_rec 0 example_db) = example_db \<and>
   fst (postgres_PersistMove no_failure 1 5 example_newGame example_rec 0 example_db) =
     Inr [history_item 5 example_rec 0] \<and>
   (\<exists>row. assignment_row
       (snd (postgres_PersistMove no_failure 1 5 example_newGame example_rec 0 example_db)) 1 5 =
       Some row \<and> gp_has_moved row)"
proof -
  have m1: "memory_PersistMove 1 6 example_newGame example_rec 0 example_store =
      (Inl ErrNotAssigned, snd (memory_PersistMove 1 6 example_newGame example_rec 0 example_store))"
    using memory_PersistMove_NotAssigned [OF example_store_facts(3)] by simp
  have p1: "postgres_PersistMove no_failure 1 6 example_newGame example_rec 0 example_db =
      (Inl ErrNotAssigned, snd (postgres_PersistMove no_failure 1 6 example_newGame example_rec 0 example_db))"
    using postgres_PersistMove_NotAssigned [OF _ _ example_db_facts(2), of no_failure]
    by (simp add: no_failure_def)
  have m2: "memory_PersistMove 1 5 example_newGame example_rec 0 example_store =
      (Inr [history_item 5 example_rec 0],
       snd (memory_PersistMove 1 5 example_newGame example_rec 0 example_store))"
    by (simp add: example_PersistMove)
  have p2: "postgres_PersistMove no_failure 1 5 example_newGame example_rec 0 example_db =
      (Inr [history_item 5 example_rec 0],
       snd (postgres_PersistMove no_failure 1 5 example_newGame example_rec 0 example_db))"
    by (simp add: example_postgres_PersistMove)
  show ?thesis
    using PersistMove_atomic [of 1 6 example_newGame example_rec 0 example_store ErrNotAssigned
        "snd (memory_PersistMove 1 6 example_newGame example_rec 0 example_store)" _
        no_failure example_db
        "snd (postgres_PersistMove no_failure 1 6 example_newGame example_rec 0 example_db)"]
      PersistMove_atomic [of 1 5 example_newGame example_rec 0 example_store _
        "snd (memory_PersistMove 1 5 example_newGame example_rec 0 example_store)"
        "[history_item 5 example_rec 0]" no_failure example_db
        "snd (postgres_PersistMove no_failure 1 5 example_newGame example_rec 0 example_db)"]
      m1 p1 m2 p2
    by (metis fst_conv insertI1)
qed

text \<open>
  Claim C5. \<open>PersistMove\<close> returns \<open>ErrNotAssigned\<close> when no Assignment row exists for
  the game and the client, and \<open>ErrAlreadyMoved\<close> when the row exists with \<open>has_moved\<close>
  true, whatever the successor, the move record and the ply are, and leaves the store
  unchanged. In particular, once a client's move in a game has been persisted, every
  further \<open>PersistMove\<close> of that client in that game returns \<open>ErrAlreadyMoved\<close>: in the
  in-memory store after any further run of the server, in the transactional store
  directly after. (For the transactional store: when \<open>Begin\<close> and the select itself
  do not fail.)
\<close>

theorem PersistMove_assignment_checks:
  "(\<not> assignment_exists s gameID clientID \<longrightarrow>
      memory_PersistMove gameID clientID newGame rec ply s = (Inl ErrNotAssigned, s)) \<and>
   (assignment_exists s gameID clientID \<and> has_moved s gameID clientID \<longrightarrow>
      memory_PersistMove gameID clientID newGame rec ply s = (Inl ErrAlreadyMoved, s)) \<and>
   (memory_PersistMove gameID clientID newGame rec ply s = (Inr h, s') \<longrightarrow>
      memory_PersistMove gameID clientID newGame2 rec2 ply2
          (srv_store (run lib rl tr \<lparr>srv_store = s', srv_pending = calls\<rparr>)) =
        (Inl ErrAlreadyMoved, srv_store (run lib rl tr \<lparr>srv_store = s', srv_pending = calls\<rparr>))) \<and>
   (io 0 = None \<and> io 1 = None \<and> assignment_row db gameID clientID = None \<longrightarrow>
      postgres_PersistMove io gameID clientID newGame rec ply db = (Inl ErrNotAssigned, db)) \<and>
   (io 0 = None \<and> io 1 = None \<and>
      (\<exists>row. assignment_row db gameID clientID = Some row \<and> gp_has_moved row) \<longrightarrow>
      postgres_PersistMove io gameID clientID newGame rec ply db = (Inl ErrAlreadyMoved, db)) \<and>
   (postgres_PersistMove io gameID clientID newGame rec ply db = (Inr h, db') \<and>
      io2 0 = None \<and> io2 1 = None \<longrightarrow>
      postgres_PersistMove io2 gameID clientID newGame2 rec2 ply2 db' = (Inl ErrAlreadyMoved, db'))"
proof (intro conjI impI)
  assume "\<not> assignment_exists s gameID clientID"
  then show "memory_PersistMove gameID clientID newGame rec ply s = (Inl ErrNotAssigned, s)"
    by (rule memory_PersistMove_NotAssigned)
next
  assume "assignment_exists s gameID clientID \<and> has_moved s gameID clientID"
  then show "memory_PersistMove gameID clientID newGame rec ply s = (Inl ErrAlreadyMoved, s)"
    by (simp add: memory_PersistMove_AlreadyMoved)
next
  assume a: "memory_PersistMove gameID clientID newGame rec ply s = (Inr h, s')"
  let ?srv = "\<lparr>srv_store = s', srv_pending = calls\<rparr>"
  have "assignment_exists (srv_store ?srv) gameID clientID \<and> has_moved (srv_store ?srv) gameID clientID"
    using memory_PersistMove_sets_moved [OF a] by simp
  then have "assignment_exists (srv_store (run lib rl tr ?srv)) gameID clientID \<and>
        has_moved (srv_store (run lib rl tr ?srv)) gameID clientID"
    using run_keeps_moved [of ?srv gameID clientID lib rl tr] by blast
  then show "memory_PersistMove gameID clientID newGame2 rec2 ply2 (srv_store (run lib rl tr ?srv)) =
        (Inl ErrAlreadyMoved, srv_store (run lib rl tr ?srv))"
    by (simp add: memory_PersistMove_AlreadyMoved)
next
  assume "io 0 = None \<and> io 1 = None \<and> assignment_row db gameID clientID = None"
  then show "postgres_PersistMove io gameID clientID newGame rec ply db = (Inl ErrNotAssigned, db)"
    by (simp add: postgres_PersistMove_NotAssigned)
next
  assume "io 0 = None \<and> io 1 = None \<and>
      (\<exists>row. assignment_row db gameID clientID = Some row \<and> gp_has_moved row)"
  then show "postgres_PersistMove io gameID clientID newGame rec ply db = (Inl ErrAlreadyMoved, db)"
    using postgres_PersistMove_AlreadyMoved by blast
next
  assume a: "postgres_PersistMove io gameID clientID newGame rec ply db = (Inr h, db') \<and>
      io2 0 = None \<and> io2 1 = None"
  then obtain row where "assignment_row db' gameID clientID = Some row" "gp_has_moved row"
    using postgres_PersistMove_sets_moved by blast
  then show "postgres_PersistMove io2 gameID clientID newGame2 rec2 ply2 db' =
      (Inl ErrAlreadyMoved, db')"
    using a postgres_PersistMove_AlreadyMoved by blast
qed

theorem PersistMove_assignment_checks_witness:
  "\<not> assignment_exists example_store 1 6 \<and>
   memory_PersistMove 1 6 example_newGame example_rec 0 example_store =
     (Inl ErrNotAssigned, example_store) \<and>
   memory_PersistMove 1 5 example_newGame example_rec 0 example_store =
     (Inr [history_item 5 example_rec 0],
      snd (memory_PersistMove 1 5 example_newGame example_rec 0 example_store)) \<and>
   assignment_exists (snd (memory_PersistMove 1 5 example_newGame example_rec 0 example_store)) 1 5 \<and>
   has_moved (snd (memory_PersistMove 1 5 example_newGame example_rec 0 example_store)) 1 5 \<and>
   fst (memory_PersistMove 1 5 example_newGame example_rec 0
     (snd (memory_PersistMove 1 5 example_newGame example_rec 0 example_store))) =
     Inl ErrAlreadyMoved \<and>
   fst (memory_PersistMove 1 5 example_newGame example_rec 0
     (srv_store (run fragment AlwaysAllow [OpClaimNextGame [1] 6]
        (new_server (snd (memory_PersistMove 1 5 example_newGame example_rec 0 example_store)))))) =
     Inl ErrAlreadyMoved \<and>
   no_failure 0 = None \<and> no_failure 1 = None \<and> assignment_row example_db 1 6 = None \<and>
   postgres_PersistMove no_failure 1 6 example_newGame example_rec 0 example_db =
     (Inl ErrNotAssigned, example_db) \<and>
   postgres_PersistMove no_failure 1 5 example_newGame example_rec 0 example_db =
     (Inr [history_item 5 example_rec 0],
      snd (postgres_PersistMove no_failure 1 5 example_newGame example_rec 0 example_db)) \<and>
   fst (postgres_PersistMove no_failure 1 5 example_newGame example_rec 0
     (snd (postgres_PersistMove no_failure 1 5 example_newGame example_rec 0 example_db))) =
     Inl ErrAlreadyMoved"
proof -
  let ?s1 = "snd (memory_PersistMove 1 5 example_newGame example_rec 0 example_store)"
  let ?db1 = "snd (postgres_PersistMove no_failure 1 5 example_newGame example_rec 0 example_db)"
  have m2: "memory_PersistMove 1 5 example_newGame example_rec 0 example_store =
      (Inr [history_item 5 example_rec 0], ?s1)"
    by (simp add: example_PersistMove)
  have p2: "postgres_PersistMove no_failure 1 5 example_newGame example_rec 0 example_db =
      (Inr [history_item 5 example_rec 0], ?db1)"
    by (simp add: example_postgres_PersistMove)
  have io: "no_failure 0 = None" "no_failure 1 = None"
    by (simp_all add: no_failure_def)
  have moved: "assignment_exists ?s1 1 5 \<and> has_moved ?s1 1 5"
    using memory_PersistMove_sets_moved [OF m2] .
  note t1 = PersistMove_assignment_checks [where s = example_store and gameID = 1
      and clientID = 6 and newGame = example_newGame and rec = example_rec and ply = 0
      and io = no_failure and db = example_db]
  note t2 = PersistMove_assignment_checks [where s = example_store and gameID = 1
      and clientID = 5 and newGame = example_newGame and rec = example_rec and ply = 0
      and h = "[history_item 5 example_rec 0]" and s' = ?s1
      and ?newGame2.0 = example_newGame and ?rec2.0 = example_rec and ?ply2.0 = 0
      and lib = fragment and rl = AlwaysAllow and tr = "[]"
      and calls = Map.empty
      and io = no_failure and db = example_db and db' = ?db1 and ?io2.0 = no_failure]
  note t3 = PersistMove_assignment_checks [where s = example_store and gameID = 1
      and clientID = 5 and newGame = example_newGame and rec = example_rec and ply = 0
      and h = "[history_item 5 example_rec 0]" and s' = ?s1
      and ?newGame2.0 = example_newGame and ?rec2.0 = example_rec and ?ply2.0 = 0
      and lib = fragment and rl = AlwaysAllow and tr = "[OpClaimNextGame [1] 6]"
      and calls = Map.empty
      and io = no_failure and db = example_db and db' = ?db1 and ?io2.0 = no_failure]
  have a: "memory_PersistMove 1 6 example_newGame example_rec 0 example_store =
     (Inl ErrNotAssigned, example_store)"
    using t1 example_store_facts(3) by blast
  have b: "fst (memory_PersistMove 1 5 example_newGame example_rec 0 ?s1) = Inl ErrAlreadyMoved"
    using t2 m2 by simp
  have "memory_PersistMove 1 5 example_newGame example_rec 0
      (srv_store (run fragment AlwaysAllow [OpClaimNextGame [1] 6] (new_server ?s1))) =
      (Inl ErrAlreadyMoved, srv_store (run fragment AlwaysAllow [OpClaimNextGame [1] 6] (new_server ?s1)))"
    using t3 m2 unfolding new_server_def by blast
  then have c: "fst (memory_PersistMove 1 5 example_newGame example_rec 0
     (srv_store (run fragment AlwaysAllow [OpClaimNextGame [1] 6] (new_server ?s1)))) =
     Inl ErrAlreadyMoved"
    by simp
  have d: "postgres_PersistMove no_failure 1 6 example_newGame example_rec 0 example_db =
     (Inl ErrNotAssigned, example_db)"
    using t1 io example_db_facts(2) by blast
  have e: "fst (postgres_PersistMove no_failure 1 5 example_newGame example_rec 0 ?db1) =
     Inl ErrAlreadyMoved"
    using t2 p2 io by (metis fst_conv)
  show ?thesis
    using a b c d e m2 p2 io moved example_store_facts(3) example_db_facts(2) by blast
qed

lemma word_pred_neq:
  fixes x :: goint
  shows "x \<noteq> x - 1"
  by simp

lemma memory_PersistMove_writes_games:
  assumes "games (snd (memory_PersistMove gameID clientID newGame rec ply s)) \<noteq> games s"
  shows "\<exists>cur. games s gameID = Some cur \<and> StateVersion cur = StateVersion newGame - 1"
  using memory_PersistMove_cases [of s gameID clientID newGame] assms
    memory_PersistMove_NotAssigned [of s gameID clientID newGame rec ply]
    memory_PersistMove_AlreadyMoved [of s gameID clientID newGame rec ply]
    memory_PersistMove_NotFound [of s gameID clientID newGame rec ply]
    memory_PersistMove_VersionConflict [of s gameID clientID _ newGame rec ply]
  by (elim disjE conjE exE) auto

lemma memory_PersistMove_second:
  assumes first: "memory_PersistMove gameID clientA newGameA recA plyA s = (Inr h, s1)"
    and same: "StateVersion newGameB = StateVersion newGameA"
  shows "\<exists>e. memory_PersistMove gameID clientB newGameB recB plyB s1 = (Inl e, s1) \<and>
     e \<in> {ErrNotAssigned, ErrAlreadyMoved, ErrVersionConflict} \<and>
     (assignment_exists s1 gameID clientB \<and> \<not> has_moved s1 gameID clientB \<longrightarrow>
        e = ErrVersionConflict) \<and>
     (\<not> assignment_exists s1 gameID clientB \<longrightarrow> e = ErrNotAssigned) \<and>
     (assignment_exists s1 gameID clientB \<and> has_moved s1 gameID clientB \<longrightarrow>
        e = ErrAlreadyMoved)"
proof -
  have g: "games s1 gameID = Some newGameA"
    using memory_PersistMove_success [OF first] by simp
  have v: "StateVersion newGameA \<noteq> StateVersion newGameB - 1"
    using same word_pred_neq [of "StateVersion newGameA"] by simp
  show ?thesis
  proof (cases "assignment_exists s1 gameID clientB")
    case False
    then show ?thesis
      using memory_PersistMove_NotAssigned [of s1 gameID clientB newGameB recB plyB] by simp
  next
    case True
    show ?thesis
    proof (cases "has_moved s1 gameID clientB")
      case True
      with \<open>assignment_exists s1 gameID clientB\<close> show ?thesis
        using memory_PersistMove_AlreadyMoved [of s1 gameID clientB newGameB recB plyB] by simp
    next
      case False
      with \<open>assignment_exists s1 gameID clientB\<close> g v show ?thesis
        using memory_PersistMove_VersionConflict [of s1 gameID clientB newGameA newGameB recB plyB]
        by simp
    qed
  qed
qed

lemma postgres_PersistMove_VersionConflict:
  assumes "io 0 = None" "io 1 = None" "io 2 = None" "io 3 = None"
    and "assignment_row db gameID clientID = Some row" "\<not> gp_has_moved row"
    and "4 \<le> length (rec_UCI rec)"
    and "\<not> (\<exists>r \<in> set (games_table db). ID r = gameID \<and> StateVersion r = StateVersion newGame - 1)"
  shows "postgres_PersistMove io gameID clientID newGame rec ply db = (Inl ErrVersionConflict, db)"
proof -
  have "filter (\<lambda>r. ID r = gameID \<and> StateVersion r = StateVersion newGame - 1) (games_table db) = []"
    using assms(8) by (simp add: filter_empty_conv)
  then show ?thesis
    using assms(1-7) unfolding postgres_PersistMove_def Let_def assignment_row_def
    by simp
qed

lemma update_game_row_no_match:
  "\<not> (\<exists>r \<in> set (map (update_game_row gameID newGameA) rows).
        ID r = gameID \<and> StateVersion r = StateVersion newGameA - 1)"
proof -
  have "\<And>r. \<not> (ID (update_game_row gameID newGameA r) = gameID \<and>
      StateVersion (update_game_row gameID newGameA r) = StateVersion newGameA - 1)"
    using word_pred_neq [of "StateVersion newGameA"]
    by (simp add: update_game_row_def)
  then show ?thesis by auto
qed

lemma postgres_PersistMove_second:
  assumes first: "postgres_PersistMove io gameID clientA newGameA recA plyA db = (Inr h, db1)"
    and same: "StateVersion newGameB = StateVersion newGameA"
  shows "\<exists>e. postgres_PersistMove io2 gameID clientB newGameB recB plyB db1 = (Inl e, db1)"
proof (cases "fst (postgres_PersistMove io2 gameID clientB newGameB recB plyB db1)")
  case (Inl e)
  then have "postgres_PersistMove io2 gameID clientB newGameB recB plyB db1 =
      (Inl e, snd (postgres_PersistMove io2 gameID clientB newGameB recB plyB db1))"
    by (metis prod.collapse)
  then show ?thesis
    using postgres_PersistMove_error_unchanged by metis
next
  case (Inr h2)
  then have "postgres_PersistMove io2 gameID clientB newGameB recB plyB db1 =
      (Inr h2, snd (postgres_PersistMove io2 gameID clientB newGameB recB plyB db1))"
    by (metis prod.collapse)
  from postgres_PersistMove_success [OF this]
  have "\<exists>r \<in> set (games_table db1). ID r = gameID \<and> StateVersion r = StateVersion newGameB - 1"
    by simp
  moreover have "games_table db1 = map (update_game_row gameID newGameA) (games_table db)"
    using postgres_PersistMove_success [OF first] by simp
  ultimately show ?thesis
    using update_game_row_no_match [of gameID newGameA "games_table db"] same by simp
qed

text \<open>
  Claim C4, as stated, fails: after a client's move has been persisted, a second
  submission of the same client, computed against the same version, is answered with
  \<open>ErrAlreadyMoved\<close>, not with \<open>ErrVersionConflict\<close>; and a submission of a client that
  holds no Assignment row is answered with \<open>ErrNotAssigned\<close> although the stored version
  (0) is not the successor's version (5) minus one.
\<close>

theorem PersistMove_VersionConflict_counterexample:
  "fst (memory_PersistMove 1 5 example_newGame example_rec 0 example_store) =
     Inr [history_item 5 example_rec 0] \<and>
   fst (memory_PersistMove 1 5 example_newGame example_rec 0
     (snd (memory_PersistMove 1 5 example_newGame example_rec 0 example_store))) =
     Inl ErrAlreadyMoved \<and>
   fst (memory_PersistMove 1 5 example_newGame example_rec 0
     (snd (memory_PersistMove 1 5 example_newGame example_rec 0 example_store))) \<noteq>
     Inl ErrVersionConflict \<and>
   games example_store 1 = Some (NewGame fragment 1 0) \<and>
   StateVersion (NewGame fragment 1 0) \<noteq> StateVersion (example_newGame\<lparr>StateVersion := 5\<rparr>) - 1 \<and>
   fst (memory_PersistMove 1 6 (example_newGame\<lparr>StateVersion := 5\<rparr>) example_rec 0 example_store) =
     Inl ErrNotAssigned"
proof -
  let ?s1 = "snd (memory_PersistMove 1 5 example_newGame example_rec 0 example_store)"
  have m2: "memory_PersistMove 1 5 example_newGame example_rec 0 example_store =
      (Inr [history_item 5 example_rec 0], ?s1)"
    by (simp add: example_PersistMove)
  have "assignment_exists ?s1 1 5 \<and> has_moved ?s1 1 5"
    using memory_PersistMove_sets_moved [OF m2] .
  then have b: "fst (memory_PersistMove 1 5 example_newGame example_rec 0 ?s1) = Inl ErrAlreadyMoved"
    by (simp add: memory_PersistMove_AlreadyMoved)
  have c: "StateVersion (NewGame fragment 1 0) \<noteq>
      StateVersion (example_newGame\<lparr>StateVersion := 5\<rparr>) - 1"
    by (simp add: NewGame_def fromChessGame_def)
  have d: "fst (memory_PersistMove 1 6 (example_newGame\<lparr>StateVersion := 5\<rparr>) example_rec 0
      example_store) = Inl ErrNotAssigned"
    by (simp add: memory_PersistMove_NotAssigned [OF example_store_facts(3)])
  have a: "fst (memory_PersistMove 1 5 example_newGame example_rec 0 example_store) =
      Inr [history_item 5 example_rec 0]"
    by (simp add: example_PersistMove)
  show ?thesis
    using a b c d example_store_facts(4) by simp
qed

lemma postgres_PersistMove_second_named:
  assumes first: "postgres_PersistMove io gameID clientA newGameA recA plyA db = (Inr h, db1)"
    and same: "StateVersion newGameB = StateVersion newGameA"
    and io: "io2 0 = None" "io2 1 = None" "io2 2 = None" "io2 3 = None"
    and row: "assignment_row db1 gameID clientB = Some row" "\<not> gp_has_moved row"
    and len: "4 \<le> length (rec_UCI recB)"
  shows "postgres_PersistMove io2 gameID clientB newGameB recB plyB db1 =
     (Inl ErrVersionConflict, db1)"
proof -
  have "games_table db1 = map (update_game_row gameID newGameA) (games_table db)"
    using postgres_PersistMove_success [OF first] by simp
  then have "\<not> (\<exists>r \<in> set (games_table db1).
      ID r = gameID \<and> StateVersion r = StateVersion newGameB - 1)"
    using update_game_row_no_match [of gameID newGameA "games_table db"] same by simp
  from postgres_PersistMove_VersionConflict [OF io row len this] show ?thesis .
qed

text \<open>
  Claim C4, amended. \<open>PersistMove\<close> writes the game only when the stored version equals
  the successor's version minus one (in Go's \<open>int\<close>). The checks of the Assignment row
  come first: when the client is assigned and has not moved and the stored version
  differs, it returns \<open>ErrVersionConflict\<close> and changes nothing (in the transactional
  store: when the database commands up to the update of the game do not fail and the move
  string has at least 4 bytes). Of two submissions for the same game whose successors
  carry the same version, at most one succeeds: once one has been persisted, the other
  fails and changes nothing. In the in-memory store it returns \<open>ErrVersionConflict\<close>
  when its client is assigned and has not moved, \<open>ErrNotAssigned\<close> when its client has
  no Assignment row, and \<open>ErrAlreadyMoved\<close> when its client has moved. In the
  transactional store it returns \<open>ErrNotAssigned\<close> when its client has no Assignment row
  and \<open>ErrAlreadyMoved\<close> when the row says that the client has moved, provided \<open>Begin\<close>
  and the select do not fail; it returns \<open>ErrVersionConflict\<close> when the client is
  assigned and has not moved, provided the commands up to the update of the game do not
  fail and the move string has at least 4 bytes.
\<close>

theorem PersistMove_compare_and_swap:
  "(games (snd (memory_PersistMove gameID clientID newGame rec ply s)) \<noteq> games s \<longrightarrow>
      (\<exists>cur. games s gameID = Some cur \<and> StateVersion cur = StateVersion newGame - 1)) \<and>
   (assignment_exists s gameID clientID \<and> \<not> has_moved s gameID clientID \<and>
      games s gameID = Some cur \<and> StateVersion cur \<noteq> StateVersion newGame - 1 \<longrightarrow>
      memory_PersistMove gameID clientID newGame rec ply s = (Inl ErrVersionConflict, s)) \<and>
   (memory_PersistMove gameID clientA newGameA recA plyA s = (Inr h, s1) \<and>
      StateVersion newGameB = StateVersion newGameA \<longrightarrow>
      (\<exists>e. memory_PersistMove gameID clientB newGameB recB plyB s1 = (Inl e, s1) \<and>
         e \<in> {ErrNotAssigned, ErrAlreadyMoved, ErrVersionConflict} \<and>
         (assignment_exists s1 gameID clientB \<and> \<not> has_moved s1 gameID clientB \<longrightarrow>
            e = ErrVersionConflict) \<and>
         (\<not> assignment_exists s1 gameID clientB \<longrightarrow> e = ErrNotAssigned) \<and>
         (assignment_exists s1 gameID clientB \<and> has_moved s1 gameID clientB \<longrightarrow>
            e = ErrAlreadyMoved))) \<and>
   (games_table (snd (postgres_PersistMove io gameID clientID newGame rec ply db)) \<noteq> games_table db \<longrightarrow>
      (\<exists>r \<in> set (games_table db). ID r = gameID \<and> StateVersion r = StateVersion newGame - 1)) \<and>
   (io 0 = None \<and> io 1 = None \<and> io 2 = None \<and> io 3 = None \<and>
      assignment_row db gameID clientID = Some row \<and> \<not> gp_has_moved row \<and>
      4 \<le> length (rec_UCI rec) \<and>
      \<not> (\<exists>r \<in> set (games_table db). ID r = gameID \<and> StateVersion r = StateVersion newGame - 1) \<longrightarrow>
      postgres_PersistMove io gameID clientID newGame rec ply db = (Inl ErrVersionConflict, db)) \<and>
   (postgres_PersistMove io gameID clientA newGameA recA plyA db = (Inr h2, db1) \<and>
      StateVersion newGameB = StateVersion newGameA \<longrightarrow>
      (\<exists>e. postgres_PersistMove io2 gameID clientB newGameB recB plyB db1 = (Inl e, db1)) \<and>
      (io2 0 = None \<and> io2 1 = None \<and> assignment_row db1 gameID clientB = None \<longrightarrow>
         postgres_PersistMove io2 gameID clientB newGameB recB plyB db1 =
           (Inl ErrNotAssigned, db1)) \<and>
      (io2 0 = None \<and> io2 1 = None \<and>
         assignment_row db1 gameID clientB = Some rowB \<and> gp_has_moved rowB \<longrightarrow>
         postgres_PersistMove io2 gameID clientB newGameB recB plyB db1 =
           (Inl ErrAlreadyMoved, db1)) \<and>
      (io2 0 = None \<and> io2 1 = None \<and> io2 2 = None \<and> io2 3 = None \<and>
         assignment_row db1 gameID clientB = Some rowB \<and> \<not> gp_has_moved rowB \<and>
         4 \<le> length (rec_UCI recB) \<longrightarrow>
         postgres_PersistMove io2 gameID clientB newGameB recB plyB db1 =
           (Inl ErrVersionConflict, db1)))"
proof (intro conjI impI)
  assume "games (snd (memory_PersistMove gameID clientID newGame rec ply s)) \<noteq> games s"
  then show "\<exists>cur. games s gameID = Some cur \<and> StateVersion cur = StateVersion newGame - 1"
    by (rule memory_PersistMove_writes_games)
next
  assume "assignment_exists s gameID clientID \<and> \<not> has_moved s gameID clientID \<and>
      games s gameID = Some cur \<and> StateVersion cur \<noteq> StateVersion newGame - 1"
  then show "memory_PersistMove gameID clientID newGame rec ply s = (Inl ErrVersionConflict, s)"
    by (simp add: memory_PersistMove_VersionConflict)
next
  assume "memory_PersistMove gameID clientA newGameA recA plyA s = (Inr h, s1) \<and>
      StateVersion newGameB = StateVersion newGameA"
  then show "\<exists>e. memory_PersistMove gameID clientB newGameB recB plyB s1 = (Inl e, s1) \<and>
         e \<in> {ErrNotAssigned, ErrAlreadyMoved, ErrVersionConflict} \<and>
         (assignment_exists s1 gameID clientB \<and> \<not> has_moved s1 gameID clientB \<longrightarrow>
            e = ErrVersionConflict) \<and>
         (\<not> assignment_exists s1 gameID clientB \<longrightarrow> e = ErrNotAssigned) \<and>
         (assignment_exists s1 gameID clientB \<and> has_moved s1 gameID clientB \<longrightarrow>
            e = ErrAlreadyMoved)"
    using memory_PersistMove_second [of gameID clientA newGameA recA plyA s h s1 newGameB
        clientB recB plyB]
    by blast
next
  assume a: "games_table (snd (postgres_PersistMove io gameID clientID newGame rec ply db)) \<noteq>
      games_table db"
  show "\<exists>r \<in> set (games_table db). ID r = gameID \<and> StateVersion r = StateVersion newGame - 1"
  proof (cases "fst (postgres_PersistMove io gameID clientID newGame rec ply db)")
    case (Inl e)
    then have "postgres_PersistMove io gameID clientID newGame rec ply db =
        (Inl e, snd (postgres_PersistMove io gameID clientID newGame rec ply db))"
      by (metis prod.collapse)
    from postgres_PersistMove_error_unchanged [OF this] a show ?thesis by simp
  next
    case (Inr h3)
    then have "postgres_PersistMove io gameID clientID newGame rec ply db =
        (Inr h3, snd (postgres_PersistMove io gameID clientID newGame rec ply db))"
      by (metis prod.collapse)
    from postgres_PersistMove_success [OF this] show ?thesis by simp
  qed
next
  assume "io 0 = None \<and> io 1 = None \<and> io 2 = None \<and> io 3 = None \<and>
      assignment_row db gameID clientID = Some row \<and> \<not> gp_has_moved row \<and>
      4 \<le> length (rec_UCI rec) \<and>
      \<not> (\<exists>r \<in> set (games_table db). ID r = gameID \<and> StateVersion r = StateVersion newGame - 1)"
  then show "postgres_PersistMove io gameID clientID newGame rec ply db = (Inl ErrVersionConflict, db)"
    using postgres_PersistMove_VersionConflict by blast
next
  assume "postgres_PersistMove io gameID clientA newGameA recA plyA db = (Inr h2, db1) \<and>
      StateVersion newGameB = StateVersion newGameA"
  then show "\<exists>e. postgres_PersistMove io2 gameID clientB newGameB recB plyB db1 = (Inl e, db1)"
    using postgres_PersistMove_second by blast
next
  assume "io2 0 = None \<and> io2 1 = None \<and> assignment_row db1 gameID clientB = None"
  then show "postgres_PersistMove io2 gameID clientB newGameB recB plyB db1 =
      (Inl ErrNotAssigned, db1)"
    by (simp add: postgres_PersistMove_NotAssigned)
next
  assume "io2 0 = None \<and> io2 1 = None \<and>
      assignment_row db1 gameID clientB = Some rowB \<and> gp_has_moved rowB"
  then show "postgres_PersistMove io2 gameID clientB newGameB recB plyB db1 =
      (Inl ErrAlreadyMoved, db1)"
    using postgres_PersistMove_AlreadyMoved by blast
next
  assume first: "postgres_PersistMove io gameID clientA newGameA recA plyA db = (Inr h2, db1) \<and>
      StateVersion newGameB = StateVersion newGameA"
  assume "io2 0 = None \<and> io2 1 = None \<and> io2 2 = None \<and> io2 3 = None \<and>
      assignment_row db1 gameID clientB = Some rowB \<and> \<not> gp_has_moved rowB \<and>
      4 \<le> length (rec_UCI recB)"
  with first show "postgres_PersistMove io2 gameID clientB newGameB recB plyB db1 =
      (Inl ErrVersionConflict, db1)"
    using postgres_PersistMove_second_named [of io gameID clientA newGameA recA plyA db h2 db1
        newGameB io2 clientB rowB recB plyB]
    by blast
qed

lemma two_clients_store_facts:
  "assignment_exists two_clients_store 1 5" "\<not> has_moved two_clients_store 1 5"
  "assignment_exists two_clients_store 1 6" "\<not> has_moved two_clients_store 1 6"
  "games two_clients_store 1 = Some (NewGame fragment 1 0)"
  "history_of two_clients_store 1 = []"
  "moved two_clients_store 1 = None"
  by (simp_all add: two_clients_store_def example_store_def assignment_exists_def has_moved_def
      history_of_def)

lemma two_clients_PersistMove:
  "memory_PersistMove 1 5 example_newGame example_rec 0 two_clients_store =
     (Inr [history_item 5 example_rec 0],
      two_clients_store\<lparr>games := (games two_clients_store)(1 \<mapsto> example_newGame),
        moved := (moved two_clients_store)(1 \<mapsto> {5}),
        history := (history two_clients_store)(1 \<mapsto> [history_item 5 example_rec 0])\<rparr>)"
  using memory_PersistMove_pass [OF two_clients_store_facts(1) two_clients_store_facts(2)
      two_clients_store_facts(5) example_store_facts(5), of example_rec 0]
  by (simp add: two_clients_store_facts example_store_facts)

lemma two_clients_postgres_PersistMove:
  "fst (postgres_PersistMove no_failure 1 5 example_newGame example_rec 0 two_clients_db) =
     Inr [history_item 5 example_rec 0]"
  by (simp add: postgres_PersistMove_def no_failure_def example_db_def example_rec_def
      two_clients_db_def example_newGame_def NewGame_def fromChessGame_def fetchMoveHistory_def
      history_item_def Let_def)

lemma two_clients_db_after:
  "snd (postgres_PersistMove no_failure 1 5 example_newGame example_rec 0 two_clients_db) =
     two_clients_db\<lparr>moves := moves two_clients_db @ [move_row 1 5 example_rec 0],
       games_table := map (update_game_row 1 example_newGame) (games_table two_clients_db),
       game_players := map (mark_moved_row 1 5) (game_players two_clients_db)\<rparr>"
proof -
  have "postgres_PersistMove no_failure 1 5 example_newGame example_rec 0 two_clients_db =
      (Inr [history_item 5 example_rec 0],
       snd (postgres_PersistMove no_failure 1 5 example_newGame example_rec 0 two_clients_db))"
    using two_clients_postgres_PersistMove by (metis prod.collapse)
  from postgres_PersistMove_success [OF this] show ?thesis by simp
qed

theorem PersistMove_compare_and_swap_witness:
  "memory_PersistMove 1 5 example_newGame example_rec 0 two_clients_store =
     (Inr [history_item 5 example_rec 0],
      snd (memory_PersistMove 1 5 example_newGame example_rec 0 two_clients_store)) \<and>
   assignment_exists (snd (memory_PersistMove 1 5 example_newGame example_rec 0 two_clients_store)) 1 6 \<and>
   \<not> has_moved (snd (memory_PersistMove 1 5 example_newGame example_rec 0 two_clients_store)) 1 6 \<and>
   memory_PersistMove 1 6 example_newGame example_rec 0
     (snd (memory_PersistMove 1 5 example_newGame example_rec 0 two_clients_store)) =
     (Inl ErrVersionConflict,
      snd (memory_PersistMove 1 5 example_newGame example_rec 0 two_clients_store)) \<and>
   memory_PersistMove 1 5 example_newGame example_rec 0
     (snd (memory_PersistMove 1 5 example_newGame example_rec 0 two_clients_store)) =
     (Inl ErrAlreadyMoved,
      snd (memory_PersistMove 1 5 example_newGame example_rec 0 two_clients_store)) \<and>
   memory_PersistMove 1 7 example_newGame example_rec 0
     (snd (memory_PersistMove 1 5 example_newGame example_rec 0 two_clients_store)) =
     (Inl ErrNotAssigned,
      snd (memory_PersistMove 1 5 example_newGame example_rec 0 two_clients_store)) \<and>
   games (snd (memory_PersistMove 1 5 example_newGame example_rec 0 two_clients_store)) \<noteq>
     games two_clients_store \<and>
   (\<exists>cur. games two_clients_store 1 = Some cur \<and> StateVersion cur = StateVersion example_newGame - 1) \<and>
   memory_PersistMove 1 6 (example_newGame\<lparr>StateVersion := 5\<rparr>) example_rec 0 two_clients_store =
     (Inl ErrVersionConflict, two_clients_store) \<and>
   fst (postgres_PersistMove no_failure 1 5 example_newGame example_rec 0 two_clients_db) =
     Inr [history_item 5 example_rec 0] \<and>
   games_table (snd (postgres_PersistMove no_failure 1 5 example_newGame example_rec 0 two_clients_db)) \<noteq>
     games_table two_clients_db \<and>
   assignment_row
     (snd (postgres_PersistMove no_failure 1 5 example_newGame example_rec 0 two_clients_db)) 1 6 =
     Some \<lparr>gp_game_id = 1, gp_client_id = 6, gp_has_moved = False, gp_created_at = 0\<rparr> \<and>
   postgres_PersistMove no_failure 1 6 example_newGame example_rec 0
       (snd (postgres_PersistMove no_failure 1 5 example_newGame example_rec 0 two_clients_db)) =
     (Inl ErrVersionConflict,
      snd (postgres_PersistMove no_failure 1 5 example_newGame example_rec 0 two_clients_db)) \<and>
   postgres_PersistMove no_failure 1 5 example_newGame example_rec 0
       (snd (postgres_PersistMove no_failure 1 5 example_newGame example_rec 0 two_clients_db)) =
     (Inl ErrAlreadyMoved,
      snd (postgres_PersistMove no_failure 1 5 example_newGame example_rec 0 two_clients_db)) \<and>
   postgres_PersistMove no_failure 1 7 example_newGame example_rec 0
       (snd (postgres_PersistMove no_failure 1 5 example_newGame example_rec 0 two_clients_db)) =
     (Inl ErrNotAssigned,
      snd (postgres_PersistMove no_failure 1 5 example_newGame example_rec 0 two_clients_db)) \<and>
   postgres_PersistMove no_failure 1 6 (example_newGame\<lparr>StateVersion := 5\<rparr>) example_rec 0
     two_clients_db = (Inl ErrVersionConflict, two_clients_db)"
proof -
  let ?s1 = "snd (memory_PersistMove 1 5 example_newGame example_rec 0 two_clients_store)"
  let ?db1 = "snd (postgres_PersistMove no_failure 1 5 example_newGame example_rec 0 two_clients_db)"
  let ?g5 = "example_newGame\<lparr>StateVersion := 5\<rparr>"
  let ?row5 = "\<lparr>gp_game_id = 1, gp_client_id = 5, gp_has_moved = True, gp_created_at = 0\<rparr>"
  let ?row6 = "\<lparr>gp_game_id = 1, gp_client_id = 6, gp_has_moved = False, gp_created_at = 0\<rparr>"
  have m: "memory_PersistMove 1 5 example_newGame example_rec 0 two_clients_store =
      (Inr [history_item 5 example_rec 0], ?s1)"
    by (simp add: two_clients_PersistMove)
  have s1eq: "?s1 = two_clients_store\<lparr>games := (games two_clients_store)(1 \<mapsto> example_newGame),
        moved := (moved two_clients_store)(1 \<mapsto> {5}),
        history := (history two_clients_store)(1 \<mapsto> [history_item 5 example_rec 0])\<rparr>"
    by (simp add: two_clients_PersistMove)
  have s1: "assignment_exists ?s1 1 6" "\<not> has_moved ?s1 1 6"
    unfolding s1eq
    by (simp_all add: assignment_exists_def has_moved_def two_clients_store_def example_store_def)
  have s1b: "assignment_exists ?s1 1 5" "has_moved ?s1 1 5" "\<not> assignment_exists ?s1 1 7"
    unfolding s1eq
    by (simp_all add: assignment_exists_def has_moved_def two_clients_store_def example_store_def)
  have gs: "games ?s1 \<noteq> games two_clients_store"
  proof
    assume "games ?s1 = games two_clients_store"
    then have "games ?s1 1 = games two_clients_store 1" by simp
    then show False
      unfolding s1eq
      by (simp add: two_clients_store_facts example_newGame_def NewGame_def fromChessGame_def)
  qed
  have v5: "StateVersion (NewGame fragment 1 0) \<noteq> StateVersion ?g5 - 1"
    by (simp add: NewGame_def fromChessGame_def)
  have p: "postgres_PersistMove no_failure 1 5 example_newGame example_rec 0 two_clients_db =
      (Inr [history_item 5 example_rec 0], ?db1)"
    using two_clients_postgres_PersistMove by (metis prod.collapse)
  have gt: "games_table ?db1 \<noteq> games_table two_clients_db"
    using postgres_PersistMove_success [OF p]
    by (simp add: two_clients_db_def example_db_def update_game_row_def NewGame_def
        fromChessGame_def example_newGame_def)
  have io: "no_failure 0 = None \<and> no_failure 1 = None \<and> no_failure 2 = None \<and> no_failure 3 = None"
    by (simp add: no_failure_def)
  have row: "assignment_row two_clients_db 1 6 = Some ?row6"
    by (simp add: assignment_row_def two_clients_db_def)
  have rows1: "assignment_row ?db1 1 6 = Some ?row6" "assignment_row ?db1 1 5 = Some ?row5"
    "assignment_row ?db1 1 7 = None"
    unfolding two_clients_db_after
    by (simp_all add: assignment_row_def two_clients_db_def mark_moved_row_def)
  have len: "4 \<le> length (rec_UCI example_rec)"
    by (simp add: example_rec_def)
  have nomatch: "\<not> (\<exists>r \<in> set (games_table two_clients_db). ID r = 1 \<and>
      StateVersion r = StateVersion ?g5 - 1)"
    by (simp add: two_clients_db_def example_db_def NewGame_def fromChessGame_def)
  note t1 = PersistMove_compare_and_swap [where gameID = 1 and clientID = 5
      and newGame = example_newGame and rec = example_rec and ply = 0 and s = two_clients_store
      and clientA = 5 and newGameA = example_newGame and recA = example_rec and plyA = 0
      and h = "[history_item 5 example_rec 0]" and ?s1.0 = ?s1
      and newGameB = example_newGame and clientB = 6 and recB = example_rec and plyB = 0
      and io = no_failure and db = two_clients_db
      and ?h2.0 = "[history_item 5 example_rec 0]" and ?db1.0 = ?db1 and ?io2.0 = no_failure
      and rowB = ?row6]
  note t2 = PersistMove_compare_and_swap [where gameID = 1 and clientID = 6
      and newGame = ?g5 and rec = example_rec and ply = 0 and s = two_clients_store
      and cur = "NewGame fragment 1 0" and io = no_failure and db = two_clients_db
      and row = ?row6]
  note t3 = PersistMove_compare_and_swap [where gameID = 1
      and io = no_failure and db = two_clients_db
      and clientA = 5 and newGameA = example_newGame and recA = example_rec and plyA = 0
      and newGameB = example_newGame and clientB = 5 and recB = example_rec and plyB = 0
      and ?h2.0 = "[history_item 5 example_rec 0]" and ?db1.0 = ?db1 and ?io2.0 = no_failure
      and rowB = ?row5]
  note t4 = PersistMove_compare_and_swap [where gameID = 1
      and io = no_failure and db = two_clients_db
      and clientA = 5 and newGameA = example_newGame and recA = example_rec and plyA = 0
      and newGameB = example_newGame and clientB = 7 and recB = example_rec and plyB = 0
      and ?h2.0 = "[history_item 5 example_rec 0]" and ?db1.0 = ?db1 and ?io2.0 = no_failure]
  note t1m = t1 [THEN conjunct2, THEN conjunct2, THEN conjunct1, rule_format]
  note t1w = t1 [THEN conjunct1, rule_format]
  note t2m = t2 [THEN conjunct2, THEN conjunct1, rule_format]
  note t2p = t2 [THEN conjunct2, THEN conjunct2, THEN conjunct2, THEN conjunct2, THEN conjunct1,
      rule_format]
  note last1 = t1 [THEN conjunct2, THEN conjunct2, THEN conjunct2, THEN conjunct2, THEN conjunct2,
      rule_format]
  note last3 = t3 [THEN conjunct2, THEN conjunct2, THEN conjunct2, THEN conjunct2, THEN conjunct2,
      rule_format]
  note last4 = t4 [THEN conjunct2, THEN conjunct2, THEN conjunct2, THEN conjunct2, THEN conjunct2,
      rule_format]
  have a: "memory_PersistMove 1 6 example_newGame example_rec 0 ?s1 = (Inl ErrVersionConflict, ?s1)"
    using t1m m s1 by auto
  note t5 = PersistMove_compare_and_swap [where gameID = 1 and s = two_clients_store
      and clientA = 5 and newGameA = example_newGame and recA = example_rec and plyA = 0
      and h = "[history_item 5 example_rec 0]" and ?s1.0 = ?s1
      and newGameB = example_newGame and clientB = 5 and recB = example_rec and plyB = 0]
  note t6 = PersistMove_compare_and_swap [where gameID = 1 and s = two_clients_store
      and clientA = 5 and newGameA = example_newGame and recA = example_rec and plyA = 0
      and h = "[history_item 5 example_rec 0]" and ?s1.0 = ?s1
      and newGameB = example_newGame and clientB = 7 and recB = example_rec and plyB = 0]
  have a2: "memory_PersistMove 1 5 example_newGame example_rec 0 ?s1 = (Inl ErrAlreadyMoved, ?s1)"
    using t5 [THEN conjunct2, THEN conjunct2, THEN conjunct1, rule_format] m s1b by auto
  have a3: "memory_PersistMove 1 7 example_newGame example_rec 0 ?s1 = (Inl ErrNotAssigned, ?s1)"
    using t6 [THEN conjunct2, THEN conjunct2, THEN conjunct1, rule_format] m s1b by auto
  have b: "\<exists>cur. games two_clients_store 1 = Some cur \<and>
      StateVersion cur = StateVersion example_newGame - 1"
    using t1w gs by blast
  have c: "memory_PersistMove 1 6 ?g5 example_rec 0 two_clients_store =
      (Inl ErrVersionConflict, two_clients_store)"
    using t2m two_clients_store_facts(3,4,5) v5 by blast
  have same: "postgres_PersistMove no_failure 1 5 example_newGame example_rec 0 two_clients_db =
      (Inr [history_item 5 example_rec 0], ?db1) \<and>
      StateVersion example_newGame = StateVersion example_newGame"
    using p by simp
  have d: "postgres_PersistMove no_failure 1 6 example_newGame example_rec 0 ?db1 =
      (Inl ErrVersionConflict, ?db1)"
    using last1 [OF same, THEN conjunct2, THEN conjunct2, THEN conjunct2, rule_format]
      io rows1(1) len by simp
  have d2: "postgres_PersistMove no_failure 1 5 example_newGame example_rec 0 ?db1 =
      (Inl ErrAlreadyMoved, ?db1)"
    using last3 [OF same, THEN conjunct2, THEN conjunct2, THEN conjunct1, rule_format]
      io rows1(2) by simp
  have d3: "postgres_PersistMove no_failure 1 7 example_newGame example_rec 0 ?db1 =
      (Inl ErrNotAssigned, ?db1)"
    using last4 [OF same, THEN conjunct2, THEN conjunct1, rule_format] io rows1(3) by simp
  have e: "postgres_PersistMove no_failure 1 6 ?g5 example_rec 0 two_clients_db =
      (Inl ErrVersionConflict, two_clients_db)"
    using t2p io row len nomatch by simp
  show ?thesis
    using m s1 a a2 a3 gs b c two_clients_postgres_PersistMove gt rows1(1) d d2 d3 e
    by (intro conjI) assumption+
qed

lemma eligible_iff:
  "eligible s clientID g =
     (\<not> (Status g \<noteq> StatusWaiting \<and> Status g \<noteq> StatusOngoing) \<and>
      \<not> (case assigned s (ID g) of None \<Rightarrow> False | Some assignedSet \<Rightarrow> clientID \<in> assignedSet))"
  by (auto simp: eligible_def assignment_exists_def)

lemma claim_loop_Some:
  "claim_loop s clientID order = Some g \<Longrightarrow>
   \<exists>k \<in> set order. games s k = Some g \<and> eligible s clientID g"
proof (induction order)
  case Nil
  then show ?case by simp
next
  case (Cons k ks)
  show ?case
  proof (cases "games s k")
    case None
    with Cons show ?thesis by simp
  next
    case (Some g0)
    show ?thesis
    proof (cases "eligible s clientID g0")
      case True
      with Some Cons.prems have "g = g0"
        by (auto simp: eligible_iff split: if_splits)
      with Some True show ?thesis by simp
    next
      case False
      with Some Cons.prems have "claim_loop s clientID ks = Some g"
        by (auto simp: eligible_iff split: if_splits)
      with Cons.IH show ?thesis by auto
    qed
  qed
qed

lemma claim_loop_finds:
  "k \<in> set order \<Longrightarrow> games s k = Some g \<Longrightarrow> eligible s clientID g \<Longrightarrow>
   \<exists>g2. claim_loop s clientID order = Some g2"
proof (induction order)
  case Nil
  then show ?case by simp
next
  case (Cons k0 ks)
  show ?case
  proof (cases "games s k0")
    case None
    with Cons show ?thesis by auto
  next
    case (Some g0)
    show ?thesis
    proof (cases "eligible s clientID g0")
      case True
      with Some show ?thesis
        by (auto simp: eligible_iff)
    next
      case False
      with Some Cons.prems have "k \<in> set ks" by auto
      with Cons.IH Cons.prems obtain g2 where "claim_loop s clientID ks = Some g2" by blast
      with Some False show ?thesis
        by (auto simp: eligible_iff)
    qed
  qed
qed

lemma memory_ClaimNextGame_Some:
  "claim_loop s clientID order = Some chosen \<Longrightarrow>
   memory_ClaimNextGame order clientID s =
     (Inr (if Status chosen = StatusWaiting then chosen\<lparr>Status := StatusOngoing\<rparr> else chosen,
           history_of s (ID chosen)),
      claimed s clientID chosen)"
  by (simp add: memory_ClaimNextGame_def Let_def claimed_def history_of_def)

lemma memory_ClaimNextGame_None:
  "claim_loop s clientID order = None \<Longrightarrow>
   memory_ClaimNextGame order clientID s = (Inl ErrNoGamesAvailable, s)"
  by (simp add: memory_ClaimNextGame_def)

lemma memory_ClaimNextGame_success:
  assumes "memory_ClaimNextGame order clientID s = (Inr (g, h), s')"
  shows "\<exists>chosen. claim_loop s clientID order = Some chosen \<and>
     (\<exists>k \<in> set order. games s k = Some chosen) \<and> eligible s clientID chosen \<and>
     g = (if Status chosen = StatusWaiting then chosen\<lparr>Status := StatusOngoing\<rparr> else chosen) \<and>
     ID g = ID chosen \<and> h = history_of s (ID chosen) \<and> s' = claimed s clientID chosen"
proof (cases "claim_loop s clientID order")
  case None
  with assms show ?thesis
    by (simp add: memory_ClaimNextGame_None)
next
  case (Some chosen)
  with assms claim_loop_Some [OF Some] show ?thesis
    by (auto simp: memory_ClaimNextGame_Some)
qed

lemma claimed_assigned:
  "assignment_exists (claimed s clientID chosen) gid c =
     (assignment_exists s gid c \<or> (gid = ID chosen \<and> c = clientID))"
  by (auto simp: claimed_def assignment_exists_def split: option.splits)

lemma claimed_games_other:
  "k \<noteq> ID chosen \<Longrightarrow> games (claimed s clientID chosen) k = games s k"
  by (simp add: claimed_def)

lemma sort_key_head_least:
  fixes f :: "'a \<Rightarrow> int"
  assumes "sort_key f xs = y # ys"
  shows "y \<in> set xs \<and> (\<forall>x \<in> set xs. f y \<le> f x)"
proof -
  have "sorted (map f (sort_key f xs))"
    by simp
  then have "\<forall>x \<in> set (y # ys). f y \<le> f x"
    using assms by auto
  moreover have "set (y # ys) = set xs"
    using assms by (metis set_sort)
  ultimately show ?thesis by auto
qed

lemma assignment_row_None:
  "(assignment_row db gameID clientID = None) =
     (\<not> (\<exists>r \<in> set (game_players db). gp_game_id r = gameID \<and> gp_client_id r = clientID))"
  by (auto simp: assignment_row_def find_None_iff)

text \<open>The database and the result of a claim that selects the row \<open>g\<close>.\<close>

lemma postgres_ClaimNextGame_success:
  assumes "postgres_ClaimNextGame io dbnow clientID db = (Inr (g2, h), db')"
  shows "\<exists>g. g \<in> set (games_table db) \<and> claimable db clientID g \<and>
     (\<forall>x \<in> set (games_table db). claimable db clientID x \<longrightarrow> CreatedAt g \<le> CreatedAt x) \<and>
     g2 = (if Status g = StatusWaiting then g\<lparr>Status := StatusOngoing\<rparr> else g) \<and>
     ID g2 = ID g \<and> CreatedAt g2 = CreatedAt g \<and>
     game_players db' = game_players db @
       [\<lparr>gp_game_id = ID g, gp_client_id = clientID, gp_has_moved = False,
         gp_created_at = dbnow\<rparr>] \<and>
     games_table db' =
       map (\<lambda>r. if ID r = ID g \<and> Status r = StatusWaiting
                then r\<lparr>Status := StatusOngoing, UpdatedAt := dbnow\<rparr> else r) (games_table db) \<and>
     moves db' = moves db \<and> h = fetchMoveHistory db' (ID g)"
proof -
  obtain g rest where
    sel: "sort_key CreatedAt (filter (claimable db clientID) (games_table db)) = g # rest"
    using assms unfolding postgres_ClaimNextGame_def
    by (cases "sort_key CreatedAt (filter (claimable db clientID) (games_table db))")
      (auto split: option.splits)
  from sort_key_head_least [OF sel]
  have g: "g \<in> set (games_table db)" "claimable db clientID g"
    "\<forall>x \<in> set (games_table db). claimable db clientID x \<longrightarrow> CreatedAt g \<le> CreatedAt x"
    by auto
  have rest: "g2 = (if Status g = StatusWaiting then g\<lparr>Status := StatusOngoing\<rparr> else g) \<and>
     game_players db' = game_players db @
       [\<lparr>gp_game_id = ID g, gp_client_id = clientID, gp_has_moved = False,
         gp_created_at = dbnow\<rparr>] \<and>
     games_table db' =
       map (\<lambda>r. if ID r = ID g \<and> Status r = StatusWaiting
                then r\<lparr>Status := StatusOngoing, UpdatedAt := dbnow\<rparr> else r) (games_table db) \<and>
     moves db' = moves db \<and> h = fetchMoveHistory db' (ID g)"
    using assms sel unfolding postgres_ClaimNextGame_def Let_def
    by (auto split: option.splits if_splits)
  then have "ID g2 = ID g \<and> CreatedAt g2 = CreatedAt g"
    by simp
  with g rest show ?thesis by blast
qed

lemma postgres_ClaimNextGame_error_unchanged:
  assumes "postgres_ClaimNextGame io dbnow clientID db = (Inl e, db')"
  shows "db' = db"
  using assms unfolding postgres_ClaimNextGame_def Let_def
  by (auto split: option.splits if_splits list.splits)

lemma postgres_ClaimNextGame_finds:
  assumes io: "io 0 = None" "io 1 = None" "io 2 = None" "io 3 = None" "io 4 = None" "io 5 = None"
    and g: "g \<in> set (games_table db)" "claimable db clientID g"
  shows "\<exists>g2 h db'. postgres_ClaimNextGame io dbnow clientID db = (Inr (g2, h), db')"
proof -
  have "filter (claimable db clientID) (games_table db) \<noteq> []"
    using g by (auto simp: filter_empty_conv)
  then have "sort_key CreatedAt (filter (claimable db clientID) (games_table db)) \<noteq> []"
    by (metis length_sort length_0_conv)
  then obtain y ys where
    sel: "sort_key CreatedAt (filter (claimable db clientID) (games_table db)) = y # ys"
    by (cases "sort_key CreatedAt (filter (claimable db clientID) (games_table db))") auto
  from sort_key_head_least [OF sel] have "claimable db clientID y" by simp
  then have "\<not> (\<exists>r \<in> set (game_players db). gp_game_id r = ID y \<and> gp_client_id r = clientID)"
    by (simp add: claimable_def)
  then show ?thesis
    using io sel unfolding postgres_ClaimNextGame_def Let_def
    by simp
qed

lemma memory_ClaimNextGame_unassigned:
  assumes "memory_ClaimNextGame order clientID s = (Inr (g, h), s')"
  shows "\<not> assignment_exists s (ID g) clientID \<and> assignment_exists s' (ID g) clientID"
proof -
  from memory_ClaimNextGame_success [OF assms] obtain chosen where
    "eligible s clientID chosen" "ID g = ID chosen" "s' = claimed s clientID chosen"
    by blast
  then show ?thesis
    by (simp add: eligible_def claimed_assigned)
qed

lemma memory_ClaimNextGame_twice_distinct:
  assumes "memory_ClaimNextGame order1 clientID s = (Inr (g1, h1), s1)"
    and "memory_ClaimNextGame order2 clientID s1 = (Inr (g2, h2), s2)"
  shows "ID g1 \<noteq> ID g2"
  using memory_ClaimNextGame_unassigned [OF assms(1)] memory_ClaimNextGame_unassigned [OF assms(2)]
  by auto

lemma memory_ClaimNextGame_twice_succeeds:
  assumes wf: "\<forall>k g. games s k = Some g \<longrightarrow> ID g = k"
    and o1: "set order1 = dom (games s)"
    and o2: "set order2 = dom (games (snd (memory_ClaimNextGame order1 clientID s)))"
    and ne: "k1 \<noteq> k2"
    and a: "games s k1 = Some ga" "eligible s clientID ga"
    and b: "games s k2 = Some gb" "eligible s clientID gb"
  shows "\<exists>g1 h1 s1 g2 h2 s2.
     memory_ClaimNextGame order1 clientID s = (Inr (g1, h1), s1) \<and>
     memory_ClaimNextGame order2 clientID s1 = (Inr (g2, h2), s2) \<and> ID g1 \<noteq> ID g2"
proof -
  have "k1 \<in> set order1"
    using o1 a(1) by auto
  from claim_loop_finds [OF this a] obtain chosen where
    cl: "claim_loop s clientID order1 = Some chosen" by blast
  let ?g1 = "if Status chosen = StatusWaiting then chosen\<lparr>Status := StatusOngoing\<rparr> else chosen"
  let ?s1 = "claimed s clientID chosen"
  have first: "memory_ClaimNextGame order1 clientID s =
      (Inr (?g1, history_of s (ID chosen)), ?s1)"
    by (rule memory_ClaimNextGame_Some [OF cl])
  have "\<exists>kb gx. kb \<noteq> ID chosen \<and> games s kb = Some gx \<and> eligible s clientID gx"
  proof (cases "k1 = ID chosen")
    case True
    with ne have "k2 \<noteq> ID chosen" by simp
    with b show ?thesis by blast
  next
    case False
    with a show ?thesis by blast
  qed
  then obtain kb gx where kb: "kb \<noteq> ID chosen" "games s kb = Some gx" "eligible s clientID gx"
    by blast
  have idx: "ID gx = kb"
    using wf kb(2) by simp
  have g1: "games ?s1 kb = Some gx"
    using kb by (simp add: claimed_games_other)
  have e1: "eligible ?s1 clientID gx"
    using kb idx by (auto simp: eligible_def claimed_assigned)
  have "kb \<in> set order2"
    using o2 g1 by (auto simp: first)
  from claim_loop_finds [OF this g1 e1] obtain chosen2 where
    cl2: "claim_loop ?s1 clientID order2 = Some chosen2" by blast
  note second = memory_ClaimNextGame_Some [OF cl2]
  from memory_ClaimNextGame_twice_distinct [OF first second] first second
  show ?thesis by blast
qed

lemma postgres_ClaimNextGame_unassigned:
  assumes "postgres_ClaimNextGame io dbnow clientID db = (Inr (g, h), db')"
  shows "assignment_row db (ID g) clientID = None \<and> assignment_row db' (ID g) clientID \<noteq> None"
proof -
  from postgres_ClaimNextGame_success [OF assms] obtain g0 where
    c: "claimable db clientID g0" and i: "ID g = ID g0" and
    gp: "game_players db' = game_players db @
       [\<lparr>gp_game_id = ID g0, gp_client_id = clientID, gp_has_moved = False,
         gp_created_at = dbnow\<rparr>]"
    by blast
  have "assignment_row db (ID g) clientID = None"
    using c i by (simp add: assignment_row_None claimable_def)
  moreover have "assignment_row db' (ID g) clientID \<noteq> None"
    using gp i by (simp add: assignment_row_None)
  ultimately show ?thesis by simp
qed

lemma postgres_ClaimNextGame_twice_distinct:
  assumes "postgres_ClaimNextGame io1 now1 clientID db = (Inr (g1, h1), db1)"
    and "postgres_ClaimNextGame io2 now2 clientID db1 = (Inr (g2, h2), db2)"
  shows "ID g1 \<noteq> ID g2"
  using postgres_ClaimNextGame_unassigned [OF assms(1)]
    postgres_ClaimNextGame_unassigned [OF assms(2)]
  by auto

lemma postgres_ClaimNextGame_tables:
  assumes "postgres_ClaimNextGame io dbnow clientID db = (Inr (g2, h), db')"
  obtains g :: Game where "ID g2 = ID g"
    "game_players db' = game_players db @
       [\<lparr>gp_game_id = ID g, gp_client_id = clientID, gp_has_moved = False,
         gp_created_at = dbnow\<rparr>]"
    "games_table db' =
       map (\<lambda>r. if ID r = ID g \<and> Status r = StatusWaiting
                then r\<lparr>Status := StatusOngoing, UpdatedAt := dbnow\<rparr> else r) (games_table db)"
proof -
  from postgres_ClaimNextGame_success [OF assms] obtain g :: Game where
    f: "g \<in> set (games_table db) \<and> claimable db clientID g \<and>
     (\<forall>x \<in> set (games_table db). claimable db clientID x \<longrightarrow> CreatedAt g \<le> CreatedAt x) \<and>
     g2 = (if Status g = StatusWaiting then g\<lparr>Status := StatusOngoing\<rparr> else g) \<and>
     ID g2 = ID g \<and> CreatedAt g2 = CreatedAt g \<and>
     game_players db' = game_players db @
       [\<lparr>gp_game_id = ID g, gp_client_id = clientID, gp_has_moved = False,
         gp_created_at = dbnow\<rparr>] \<and>
     games_table db' =
       map (\<lambda>r. if ID r = ID g \<and> Status r = StatusWaiting
                then r\<lparr>Status := StatusOngoing, UpdatedAt := dbnow\<rparr> else r) (games_table db) \<and>
     moves db' = moves db \<and> h = fetchMoveHistory db' (ID g)"
    by (erule exE)
  have 1: "ID g2 = ID g" using f by (elim conjE)
  have 2: "game_players db' = game_players db @
       [\<lparr>gp_game_id = ID g, gp_client_id = clientID, gp_has_moved = False,
         gp_created_at = dbnow\<rparr>]" using f by (elim conjE)
  have 3: "games_table db' =
       map (\<lambda>r. if ID r = ID g \<and> Status r = StatusWaiting
                then r\<lparr>Status := StatusOngoing, UpdatedAt := dbnow\<rparr> else r) (games_table db)"
    using f by (elim conjE)
  from 1 2 3 show thesis by (rule that)
qed

lemma claimable_after_claim:
  assumes "ID gx \<noteq> k" "claimable db clientID gx"
    and "game_players db1 = game_players db @
       [\<lparr>gp_game_id = k, gp_client_id = clientID, gp_has_moved = False, gp_created_at = now1\<rparr>]"
  shows "claimable db1 clientID gx"
  using assms unfolding claimable_def by simp

lemma row_kept_after_claim:
  assumes "ID gx \<noteq> k" "gx \<in> set rows"
  shows "gx \<in> set (map (\<lambda>r. if ID r = k \<and> Status r = StatusWaiting
                then r\<lparr>Status := StatusOngoing, UpdatedAt := now1\<rparr> else r) rows)"
  using assms by (induction rows) auto

lemma postgres_ClaimNextGame_twice_succeeds:
  assumes io1: "io1 0 = None" "io1 1 = None" "io1 2 = None" "io1 3 = None" "io1 4 = None"
      "io1 5 = None"
    and io2: "io2 0 = None" "io2 1 = None" "io2 2 = None" "io2 3 = None" "io2 4 = None"
      "io2 5 = None"
    and ne: "ID ga \<noteq> ID gb"
    and a: "ga \<in> set (games_table db)" "claimable db clientID ga"
    and b: "gb \<in> set (games_table db)" "claimable db clientID gb"
  shows "\<exists>g1 h1 db1 g2 h2 db2.
     postgres_ClaimNextGame io1 now1 clientID db = (Inr (g1, h1), db1) \<and>
     postgres_ClaimNextGame io2 now2 clientID db1 = (Inr (g2, h2), db2) \<and> ID g1 \<noteq> ID g2"
proof -
  from postgres_ClaimNextGame_finds [OF io1 a, of now1] obtain g1 h1 db1 where
    first: "postgres_ClaimNextGame io1 now1 clientID db = (Inr (g1, h1), db1)" by blast
  obtain g0 :: Game where
    gi: "ID g1 = ID g0" and
    gp: "game_players db1 = game_players db @
       [\<lparr>gp_game_id = ID g0, gp_client_id = clientID, gp_has_moved = False,
         gp_created_at = now1\<rparr>]" and
    gt: "games_table db1 =
       map (\<lambda>r. if ID r = ID g0 \<and> Status r = StatusWaiting
                then r\<lparr>Status := StatusOngoing, UpdatedAt := now1\<rparr> else r) (games_table db)"
    by (rule postgres_ClaimNextGame_tables [OF first])
  have "\<exists>gx. ID gx \<noteq> ID g0 \<and> gx \<in> set (games_table db) \<and> claimable db clientID gx"
  proof (cases "ID ga = ID g0")
    case True
    with ne have "ID gb \<noteq> ID g0" by simp
    with b show ?thesis by blast
  next
    case False
    with a show ?thesis by blast
  qed
  then obtain gx where gx: "ID gx \<noteq> ID g0" "gx \<in> set (games_table db)" "claimable db clientID gx"
    by blast
  have in1: "gx \<in> set (games_table db1)"
    unfolding gt by (rule row_kept_after_claim [OF gx(1) gx(2)])
  have c1: "claimable db1 clientID gx"
    by (rule claimable_after_claim [OF gx(1) gx(3) gp])
  from postgres_ClaimNextGame_finds [OF io2 in1 c1, of now2] obtain g2 h2 db2 where
    second: "postgres_ClaimNextGame io2 now2 clientID db1 = (Inr (g2, h2), db2)" by blast
  have d: "ID g1 \<noteq> ID g2"
    by (rule postgres_ClaimNextGame_twice_distinct [OF first second])
  show ?thesis
    by (intro exI conjI) (rule first, rule second, rule d)
qed

lemma two_games_store_games:
  "games two_games_store 1 = Some ((NewGame fragment 1 10)\<lparr>Status := StatusWaiting\<rparr>)"
  "games two_games_store 2 = Some ((NewGame fragment 2 20)\<lparr>Status := StatusWaiting\<rparr>)"
  by (simp_all add: two_games_store_def)

lemma two_games_store_eligible:
  "eligible two_games_store 9 ((NewGame fragment 1 10)\<lparr>Status := StatusWaiting\<rparr>)"
  "eligible two_games_store 9 ((NewGame fragment 2 20)\<lparr>Status := StatusWaiting\<rparr>)"
  by (simp_all add: two_games_store_def eligible_def assignment_exists_def NewGame_def
      fromChessGame_def)

lemma two_games_store_dom: "set [2, 1] = dom (games two_games_store)"
  by (auto simp add: two_games_store_def)

lemma two_games_store_keys: "\<forall>k g. games two_games_store k = Some g \<longrightarrow> ID g = k"
  by (auto simp add: two_games_store_def NewGame_def fromChessGame_def split: if_splits)

lemma two_games_claim_loop:
  "claim_loop two_games_store 9 [2, 1] = Some ((NewGame fragment 2 20)\<lparr>Status := StatusWaiting\<rparr>)"
  by (simp add: two_games_store_def NewGame_def fromChessGame_def StatusWaiting_def)

lemma two_games_claim:
  "memory_ClaimNextGame [2, 1] 9 two_games_store =
     (Inr ((NewGame fragment 2 20)\<lparr>Status := StatusOngoing\<rparr>, []),
      claimed two_games_store 9 ((NewGame fragment 2 20)\<lparr>Status := StatusWaiting\<rparr>))"
  using memory_ClaimNextGame_Some [OF two_games_claim_loop]
  by (simp add: history_of_def two_games_store_def NewGame_def fromChessGame_def)

lemma two_games_store_created:
  "two_games_store =
     memory_CreateWaitingBatch fragment (\<lambda>i. 2) 20 1
       (memory_CreateWaitingBatch fragment (\<lambda>i. 1) 10 1 (memory_New fragment (\<lambda>i. 0) 0 0))"
proof -
  have r1: "rounds 1 = 1" and r0: "rounds 0 = 0"
    by (simp_all add: rounds_def)
  have u: "[0..<1] = [0]"
    by (simp add: upt_rec)
  show ?thesis
    by (simp add: two_games_store_def memory_CreateWaitingBatch_def memory_New_def r1 r0 u)
qed

lemma two_games_db_facts:
  "(NewGame fragment 1 10)\<lparr>Status := StatusWaiting\<rparr> \<in> set (games_table two_games_db)"
  "(NewGame fragment 2 20)\<lparr>Status := StatusWaiting\<rparr> \<in> set (games_table two_games_db)"
  "claimable two_games_db 9 ((NewGame fragment 1 10)\<lparr>Status := StatusWaiting\<rparr>)"
  "claimable two_games_db 9 ((NewGame fragment 2 20)\<lparr>Status := StatusWaiting\<rparr>)"
  "ID ((NewGame fragment 1 10)\<lparr>Status := StatusWaiting\<rparr>) \<noteq>
   ID ((NewGame fragment 2 20)\<lparr>Status := StatusWaiting\<rparr>)"
  by (simp_all add: two_games_db_def claimable_def NewGame_def fromChessGame_def)

text \<open>
  Claim C8. \<open>ClaimNextGame\<close> never returns a game for which the client already holds an
  Assignment row, and it leaves such a row behind; so two claims of one client that both
  return a game return different games. When two different games are eligible for the
  client, two claims in a row both return a game (in the in-memory store, where games are
  stored under their identifiers and each iteration visits the keys of the map; in the
  transactional store, when no database command fails), and the two identifiers differ.
\<close>

theorem ClaimNextGame_never_repeats:
  "(memory_ClaimNextGame order clientID s = (Inr (g, h), s') \<longrightarrow>
      \<not> assignment_exists s (ID g) clientID \<and> assignment_exists s' (ID g) clientID) \<and>
   (memory_ClaimNextGame order1 clientID s = (Inr (g1, h1), s1) \<and>
      memory_ClaimNextGame order2 clientID s1 = (Inr (g2, h2), s2) \<longrightarrow> ID g1 \<noteq> ID g2) \<and>
   ((\<forall>k x. games s k = Some x \<longrightarrow> ID x = k) \<and> set order1 = dom (games s) \<and>
      set order2 = dom (games (snd (memory_ClaimNextGame order1 clientID s))) \<and> k1 \<noteq> k2 \<and>
      games s k1 = Some ga \<and> eligible s clientID ga \<and>
      games s k2 = Some gb \<and> eligible s clientID gb \<longrightarrow>
      (\<exists>x1 y1 t1 x2 y2 t2.
         memory_ClaimNextGame order1 clientID s = (Inr (x1, y1), t1) \<and>
         memory_ClaimNextGame order2 clientID t1 = (Inr (x2, y2), t2) \<and> ID x1 \<noteq> ID x2)) \<and>
   (postgres_ClaimNextGame io dbnow clientID db = (Inr (g, h), db') \<longrightarrow>
      assignment_row db (ID g) clientID = None \<and> assignment_row db' (ID g) clientID \<noteq> None) \<and>
   (postgres_ClaimNextGame io1 now1 clientID db = (Inr (g1, h1), db1) \<and>
      postgres_ClaimNextGame io2 now2 clientID db1 = (Inr (g2, h2), db2) \<longrightarrow> ID g1 \<noteq> ID g2) \<and>
   ((\<forall>n < 6. io1 n = None) \<and> (\<forall>n < 6. io2 n = None) \<and> ID ra \<noteq> ID rb \<and>
      ra \<in> set (games_table db) \<and> claimable db clientID ra \<and>
      rb \<in> set (games_table db) \<and> claimable db clientID rb \<longrightarrow>
      (\<exists>x1 y1 d1 x2 y2 d2.
         postgres_ClaimNextGame io1 now1 clientID db = (Inr (x1, y1), d1) \<and>
         postgres_ClaimNextGame io2 now2 clientID d1 = (Inr (x2, y2), d2) \<and> ID x1 \<noteq> ID x2))"
proof (intro conjI impI)
  assume "memory_ClaimNextGame order clientID s = (Inr (g, h), s')"
  then show "\<not> assignment_exists s (ID g) clientID" "assignment_exists s' (ID g) clientID"
    using memory_ClaimNextGame_unassigned by blast+
next
  assume "memory_ClaimNextGame order1 clientID s = (Inr (g1, h1), s1) \<and>
      memory_ClaimNextGame order2 clientID s1 = (Inr (g2, h2), s2)"
  then show "ID g1 \<noteq> ID g2"
    using memory_ClaimNextGame_twice_distinct by blast
next
  assume a: "(\<forall>k x. games s k = Some x \<longrightarrow> ID x = k) \<and> set order1 = dom (games s) \<and>
      set order2 = dom (games (snd (memory_ClaimNextGame order1 clientID s))) \<and> k1 \<noteq> k2 \<and>
      games s k1 = Some ga \<and> eligible s clientID ga \<and>
      games s k2 = Some gb \<and> eligible s clientID gb"
  show "\<exists>x1 y1 t1 x2 y2 t2.
         memory_ClaimNextGame order1 clientID s = (Inr (x1, y1), t1) \<and>
         memory_ClaimNextGame order2 clientID t1 = (Inr (x2, y2), t2) \<and> ID x1 \<noteq> ID x2"
    by (rule memory_ClaimNextGame_twice_succeeds [of s order1 order2 clientID k1 k2 ga gb])
      (use a in simp_all)
next
  assume "postgres_ClaimNextGame io dbnow clientID db = (Inr (g, h), db')"
  then show "assignment_row db (ID g) clientID = None"
    "assignment_row db' (ID g) clientID \<noteq> None"
    using postgres_ClaimNextGame_unassigned by blast+
next
  assume "postgres_ClaimNextGame io1 now1 clientID db = (Inr (g1, h1), db1) \<and>
      postgres_ClaimNextGame io2 now2 clientID db1 = (Inr (g2, h2), db2)"
  then show "ID g1 \<noteq> ID g2"
    using postgres_ClaimNextGame_twice_distinct by blast
next
  assume a: "(\<forall>n < 6. io1 n = None) \<and> (\<forall>n < 6. io2 n = None) \<and> ID ra \<noteq> ID rb \<and>
      ra \<in> set (games_table db) \<and> claimable db clientID ra \<and>
      rb \<in> set (games_table db) \<and> claimable db clientID rb"
  show "\<exists>x1 y1 d1 x2 y2 d2.
         postgres_ClaimNextGame io1 now1 clientID db = (Inr (x1, y1), d1) \<and>
         postgres_ClaimNextGame io2 now2 clientID d1 = (Inr (x2, y2), d2) \<and> ID x1 \<noteq> ID x2"
    by (rule postgres_ClaimNextGame_twice_succeeds [of io1 io2 ra rb db clientID now1 now2])
      (use a in simp_all)
qed

theorem ClaimNextGame_never_repeats_witness:
  "set [2, 1] = dom (games two_games_store) \<and>
   set [1, 2] = dom (games (snd (memory_ClaimNextGame [2, 1] 9 two_games_store))) \<and>
   eligible two_games_store 9 ((NewGame fragment 1 10)\<lparr>Status := StatusWaiting\<rparr>) \<and>
   eligible two_games_store 9 ((NewGame fragment 2 20)\<lparr>Status := StatusWaiting\<rparr>) \<and>
   (\<exists>x1 y1 t1 x2 y2 t2.
      memory_ClaimNextGame [2, 1] 9 two_games_store = (Inr (x1, y1), t1) \<and>
      \<not> assignment_exists two_games_store (ID x1) 9 \<and> assignment_exists t1 (ID x1) 9 \<and>
      memory_ClaimNextGame [1, 2] 9 t1 = (Inr (x2, y2), t2) \<and> ID x1 \<noteq> ID x2) \<and>
   no_failure 0 = None \<and> no_failure 5 = None \<and>
   claimable two_games_db 9 ((NewGame fragment 1 10)\<lparr>Status := StatusWaiting\<rparr>) \<and>
   claimable two_games_db 9 ((NewGame fragment 2 20)\<lparr>Status := StatusWaiting\<rparr>) \<and>
   (\<exists>x1 y1 d1 x2 y2 d2.
      postgres_ClaimNextGame no_failure 30 9 two_games_db = (Inr (x1, y1), d1) \<and>
      assignment_row two_games_db (ID x1) 9 = None \<and> assignment_row d1 (ID x1) 9 \<noteq> None \<and>
      postgres_ClaimNextGame no_failure 31 9 d1 = (Inr (x2, y2), d2) \<and> ID x1 \<noteq> ID x2)"
proof -
  have o2: "set [1, 2] = dom (games (snd (memory_ClaimNextGame [2, 1] 9 two_games_store)))"
    unfolding two_games_claim
    by (auto simp add: claimed_def two_games_store_def NewGame_def fromChessGame_def
        split: if_splits)
  have io: "\<forall>n < 6. no_failure n = None"
    by (simp add: no_failure_def)
  have ne: "(1 :: uuid) \<noteq> 2" by simp
  note t = ClaimNextGame_never_repeats [where s = two_games_store and clientID = 9
      and ?order1.0 = "[2, 1]" and ?order2.0 = "[1, 2]" and ?k1.0 = 1 and ?k2.0 = 2
      and ga = "(NewGame fragment 1 10)\<lparr>Status := StatusWaiting\<rparr>"
      and gb = "(NewGame fragment 2 20)\<lparr>Status := StatusWaiting\<rparr>"
      and ?io1.0 = no_failure and ?io2.0 = no_failure and db = two_games_db
      and ?now1.0 = 30 and ?now2.0 = 31
      and ra = "(NewGame fragment 1 10)\<lparr>Status := StatusWaiting\<rparr>"
      and rb = "(NewGame fragment 2 20)\<lparr>Status := StatusWaiting\<rparr>"]
  note t3 = t [THEN conjunct2, THEN conjunct2, THEN conjunct1, rule_format]
  note t6 = t [THEN conjunct2, THEN conjunct2, THEN conjunct2, THEN conjunct2, THEN conjunct2,
      rule_format]
  have m: "\<exists>x1 y1 t1 x2 y2 t2.
      memory_ClaimNextGame [2, 1] 9 two_games_store = (Inr (x1, y1), t1) \<and>
      memory_ClaimNextGame [1, 2] 9 t1 = (Inr (x2, y2), t2) \<and> ID x1 \<noteq> ID x2"
    by (rule t3)
      (intro conjI, (rule two_games_store_keys two_games_store_dom o2 ne two_games_store_games
        two_games_store_eligible)+)
  have p: "\<exists>x1 y1 d1 x2 y2 d2.
      postgres_ClaimNextGame no_failure 30 9 two_games_db = (Inr (x1, y1), d1) \<and>
      postgres_ClaimNextGame no_failure 31 9 d1 = (Inr (x2, y2), d2) \<and> ID x1 \<noteq> ID x2"
    by (rule t6) (intro conjI, (rule io two_games_db_facts)+)
  from m obtain x1 y1 t1 x2 y2 t2 where
    m1: "memory_ClaimNextGame [2, 1] 9 two_games_store = (Inr (x1, y1), t1)" and
    m2: "memory_ClaimNextGame [1, 2] 9 t1 = (Inr (x2, y2), t2)" and m3: "ID x1 \<noteq> ID x2"
    by blast
  have m4: "\<not> assignment_exists two_games_store (ID x1) 9 \<and> assignment_exists t1 (ID x1) 9"
    by (rule ClaimNextGame_never_repeats [THEN conjunct1, rule_format, OF m1])
  from p obtain a1 b1 d1 a2 b2 d2 where
    p1: "postgres_ClaimNextGame no_failure 30 9 two_games_db = (Inr (a1, b1), d1)" and
    p2: "postgres_ClaimNextGame no_failure 31 9 d1 = (Inr (a2, b2), d2)" and p3: "ID a1 \<noteq> ID a2"
    by blast
  have p4: "assignment_row two_games_db (ID a1) 9 = None \<and> assignment_row d1 (ID a1) 9 \<noteq> None"
    by (rule ClaimNextGame_never_repeats [THEN conjunct2, THEN conjunct2, THEN conjunct2,
          THEN conjunct1, rule_format, OF p1])
  have mm: "\<exists>x1 y1 t1 x2 y2 t2.
      memory_ClaimNextGame [2, 1] 9 two_games_store = (Inr (x1, y1), t1) \<and>
      \<not> assignment_exists two_games_store (ID x1) 9 \<and> assignment_exists t1 (ID x1) 9 \<and>
      memory_ClaimNextGame [1, 2] 9 t1 = (Inr (x2, y2), t2) \<and> ID x1 \<noteq> ID x2"
    using m1 m2 m3 m4 by blast
  have pp: "\<exists>x1 y1 d1 x2 y2 d2.
      postgres_ClaimNextGame no_failure 30 9 two_games_db = (Inr (x1, y1), d1) \<and>
      assignment_row two_games_db (ID x1) 9 = None \<and> assignment_row d1 (ID x1) 9 \<noteq> None \<and>
      postgres_ClaimNextGame no_failure 31 9 d1 = (Inr (x2, y2), d2) \<and> ID x1 \<noteq> ID x2"
    using p1 p2 p3 p4 by blast
  have io05: "no_failure 0 = None" "no_failure 5 = None"
    by (simp_all add: no_failure_def)
  show ?thesis
    using two_games_store_dom o2 two_games_store_eligible mm io05 two_games_db_facts(3,4) pp
    by (intro conjI) assumption+
qed

text \<open>
  When a game is eligible and the iteration visits every key, the in-memory claim returns
  an eligible game.
\<close>

lemma memory_ClaimNextGame_eligible:
  assumes "set order = dom (games s)" "games s k = Some g0" "eligible s clientID g0"
  shows "\<exists>chosen. eligible s clientID chosen \<and> (\<exists>k2. games s k2 = Some chosen) \<and>
     memory_ClaimNextGame order clientID s =
       (Inr (if Status chosen = StatusWaiting then chosen\<lparr>Status := StatusOngoing\<rparr> else chosen,
             history_of s (ID chosen)),
        claimed s clientID chosen)"
proof -
  have "k \<in> set order"
    using assms(1,2) by auto
  from claim_loop_finds [OF this assms(2,3)] obtain chosen where
    cl: "claim_loop s clientID order = Some chosen" by blast
  from claim_loop_Some [OF cl] memory_ClaimNextGame_Some [OF cl]
  show ?thesis by blast
qed

text \<open>The transactional claim returns an eligible game of earliest creation time.\<close>

lemma postgres_ClaimNextGame_oldest:
  assumes "postgres_ClaimNextGame io dbnow clientID db = (Inr (g2, h), db')"
    and "x \<in> set (games_table db)" "claimable db clientID x"
  shows "CreatedAt g2 \<le> CreatedAt x"
proof -
  from postgres_ClaimNextGame_success [OF assms(1)] obtain g :: Game where
    "\<forall>x \<in> set (games_table db). claimable db clientID x \<longrightarrow> CreatedAt g \<le> CreatedAt x"
    "CreatedAt g2 = CreatedAt g"
    by blast
  with assms(2,3) show ?thesis by simp
qed

lemma two_games_postgres_claim:
  "fst (postgres_ClaimNextGame no_failure 30 9 two_games_db) =
     Inr ((NewGame fragment 1 10)\<lparr>Status := StatusOngoing\<rparr>, [])"
  by (simp add: postgres_ClaimNextGame_def no_failure_def two_games_db_def claimable_def
      NewGame_def fromChessGame_def fetchMoveHistory_def Let_def)

text \<open>
  Claim C2 fails for the in-memory store. Two waiting games are created by two calls of
  \<open>CreateWaitingBatch\<close>, game 1 at time 10 and game 2 at time 20; both are eligible for
  client 9. When the iteration of the map visits key 2 before key 1, \<open>ClaimNextGame\<close>
  returns game 2, created at time 20, not the oldest eligible game. On the same two rows
  the transactional store returns game 1.
\<close>

theorem memory_ClaimNextGame_not_oldest:
  "two_games_store =
     memory_CreateWaitingBatch fragment (\<lambda>i. 2) 20 1
       (memory_CreateWaitingBatch fragment (\<lambda>i. 1) 10 1 (memory_New fragment (\<lambda>i. 0) 0 0)) \<and>
   set [2, 1] = dom (games two_games_store) \<and>
   games two_games_store 1 = Some ((NewGame fragment 1 10)\<lparr>Status := StatusWaiting\<rparr>) \<and>
   eligible two_games_store 9 ((NewGame fragment 1 10)\<lparr>Status := StatusWaiting\<rparr>) \<and>
   CreatedAt ((NewGame fragment 1 10)\<lparr>Status := StatusWaiting\<rparr>) = 10 \<and>
   fst (memory_ClaimNextGame [2, 1] 9 two_games_store) =
     Inr ((NewGame fragment 2 20)\<lparr>Status := StatusOngoing\<rparr>, []) \<and>
   CreatedAt ((NewGame fragment 2 20)\<lparr>Status := StatusOngoing\<rparr>) = 20 \<and>
   fst (postgres_ClaimNextGame no_failure 30 9 two_games_db) =
     Inr ((NewGame fragment 1 10)\<lparr>Status := StatusOngoing\<rparr>, [])"
proof -
  have c1: "CreatedAt ((NewGame fragment 1 10)\<lparr>Status := StatusWaiting\<rparr>) = 10"
    by (simp add: NewGame_def fromChessGame_def)
  have c2: "CreatedAt ((NewGame fragment 2 20)\<lparr>Status := StatusOngoing\<rparr>) = 20"
    by (simp add: NewGame_def fromChessGame_def)
  have m: "fst (memory_ClaimNextGame [2, 1] 9 two_games_store) =
     Inr ((NewGame fragment 2 20)\<lparr>Status := StatusOngoing\<rparr>, [])"
    by (simp add: two_games_claim)
  show ?thesis
    using two_games_store_created two_games_store_dom two_games_store_games(1)
      two_games_store_eligible(1) c1 m c2 two_games_postgres_claim
    by (intro conjI) assumption+
qed

section \<open>Properties of the use cases\<close>

lemma recording_simps:
  "ClaimNextGame (recording store) clientID (s, log) =
     (fst (ClaimNextGame store clientID s),
      (snd (ClaimNextGame store clientID s), log @ [CallClaimNextGame clientID]))"
  "CreateWaitingBatch (recording store) count (s, log) =
     (fst (CreateWaitingBatch store count s),
      (snd (CreateWaitingBatch store count s), log @ [CallCreateWaitingBatch count]))"
  "GetByID (recording store) gid (s, log) =
     (fst (GetByID store gid s), (snd (GetByID store gid s), log @ [CallGetByID gid]))"
  "PersistMove (recording store) gameID clientID newGame rec ply (s, log) =
     (fst (PersistMove store gameID clientID newGame rec ply s),
      (snd (PersistMove store gameID clientID newGame rec ply s),
       log @ [CallPersistMove gameID clientID newGame rec ply]))"
  by (simp_all add: recording_def)

lemma GetNext_first_ok:
  assumes "rl ip token" "fst (ClaimNextGame store clientID s) = Inr (g, hist)"
  shows "GetNext (recording store) rl batchSize ip token clientID (s, []) =
     (Inr \<lparr>next_Game = g, next_History = hist\<rparr>,
      (snd (ClaimNextGame store clientID s), [CallClaimNextGame clientID]))"
  using assms by (simp add: GetNext_def recording_simps)

lemma GetNext_first_other_error:
  assumes "rl ip token" "fst (ClaimNextGame store clientID s) = Inl e" "e \<noteq> ErrNoGamesAvailable"
  shows "GetNext (recording store) rl batchSize ip token clientID (s, []) =
     (Inl e, (snd (ClaimNextGame store clientID s), [CallClaimNextGame clientID]))"
  using assms by (simp add: GetNext_def recording_simps)

lemma GetNext_create_error:
  assumes "rl ip token" "fst (ClaimNextGame store clientID s) = Inl ErrNoGamesAvailable"
    "fst (CreateWaitingBatch store batchSize (snd (ClaimNextGame store clientID s))) = Some ce"
  shows "GetNext (recording store) rl batchSize ip token clientID (s, []) =
     (Inl ce,
      (snd (CreateWaitingBatch store batchSize (snd (ClaimNextGame store clientID s))),
       [CallClaimNextGame clientID, CallCreateWaitingBatch batchSize]))"
  using assms by (simp add: GetNext_def recording_simps)

lemma GetNext_retry:
  assumes "rl ip token" "fst (ClaimNextGame store clientID s) = Inl ErrNoGamesAvailable"
    "fst (CreateWaitingBatch store batchSize (snd (ClaimNextGame store clientID s))) = None"
  shows "GetNext (recording store) rl batchSize ip token clientID (s, []) =
     ((case fst (ClaimNextGame store clientID
               (snd (CreateWaitingBatch store batchSize (snd (ClaimNextGame store clientID s))))) of
         Inl e2 \<Rightarrow> Inl e2
       | Inr (g2, hist2) \<Rightarrow> Inr \<lparr>next_Game = g2, next_History = hist2\<rparr>),
      (snd (ClaimNextGame store clientID
              (snd (CreateWaitingBatch store batchSize (snd (ClaimNextGame store clientID s))))),
       [CallClaimNextGame clientID, CallCreateWaitingBatch batchSize,
        CallClaimNextGame clientID]))"
proof -
  obtain s1 where c1: "ClaimNextGame store clientID s = (Inl ErrNoGamesAvailable, s1)"
    using assms(2) by (cases "ClaimNextGame store clientID s") auto
  obtain s2 where c2: "CreateWaitingBatch store batchSize s1 = (None, s2)"
    using assms(3) c1 by (cases "CreateWaitingBatch store batchSize s1") auto
  obtain r3 s3 where c3: "ClaimNextGame store clientID s2 = (r3, s3)"
    by (cases "ClaimNextGame store clientID s2") auto
  show ?thesis
  proof (cases r3)
    case (Inl e2)
    with assms(1) c1 c2 c3 show ?thesis
      by (simp add: GetNext_def recording_simps)
  next
    case (Inr p)
    obtain g2 hist2 where "p = (g2, hist2)" by (cases p) auto
    with Inr assms(1) c1 c2 c3 show ?thesis
      by (simp add: GetNext_def recording_simps)
  qed
qed

lemma GetNext_recording:
  "fst (GetNext (recording store) rl batchSize ip token clientID (s, log)) =
     fst (GetNext store rl batchSize ip token clientID s) \<and>
   fst (snd (GetNext (recording store) rl batchSize ip token clientID (s, log))) =
     snd (GetNext store rl batchSize ip token clientID s)"
proof (cases "rl ip token")
  case False
  then show ?thesis
    by (simp add: GetNext_def)
next
  case True
  obtain r1 s1 where c1: "ClaimNextGame store clientID s = (r1, s1)"
    by (cases "ClaimNextGame store clientID s") auto
  show ?thesis
  proof (cases r1)
    case (Inr p)
    obtain g hist where "p = (g, hist)" by (cases p) auto
    with Inr True c1 show ?thesis
      by (simp add: GetNext_def recording_simps)
  next
    case (Inl e)
    show ?thesis
    proof (cases "e = ErrNoGamesAvailable")
      case False
      with Inl True c1 show ?thesis
        by (simp add: GetNext_def recording_simps)
    next
      case e: True
      obtain cr s2 where c2: "CreateWaitingBatch store batchSize s1 = (cr, s2)"
        by (cases "CreateWaitingBatch store batchSize s1") auto
      show ?thesis
      proof (cases cr)
        case (Some ce)
        with e Inl True c1 c2 show ?thesis
          by (simp add: GetNext_def recording_simps)
      next
        case None
        obtain r3 s3 where c3: "ClaimNextGame store clientID s2 = (r3, s3)"
          by (cases "ClaimNextGame store clientID s2") auto
        show ?thesis
        proof (cases r3)
          case (Inl e2)
          with None e \<open>r1 = Inl e\<close> True c1 c2 c3 show ?thesis
            by (simp add: GetNext_def recording_simps)
        next
          case (Inr p)
          obtain g2 hist2 where "p = (g2, hist2)" by (cases p) auto
          with Inr None e \<open>r1 = Inl e\<close> True c1 c2 c3 show ?thesis
            by (simp add: GetNext_def recording_simps)
        qed
      qed
    qed
  qed
qed

text \<open>
  Claim C9. When the rate limiter lets the request through, \<open>GetNext\<close> first calls
  \<open>ClaimNextGame\<close>. If the claim returns a game, or fails with an error other than
  \<open>ErrNoGamesAvailable\<close>, that result is returned and nothing else is called. If it fails
  with \<open>ErrNoGamesAvailable\<close>, \<open>CreateWaitingBatch\<close> is called with the configured batch
  size; when that succeeds the claim is called once more and its result is returned as it
  is, so a retry that finds no game surfaces \<open>ErrNoGamesAvailable\<close>; when the batch
  creation fails its error is returned. The store is called as the log says, and no more.
\<close>

theorem GetNext_protocol:
  assumes "rl ip token"
  shows
   "(fst (ClaimNextGame store clientID s) = Inr (g, hist) \<longrightarrow>
       GetNext (recording store) rl batchSize ip token clientID (s, []) =
         (Inr \<lparr>next_Game = g, next_History = hist\<rparr>,
          (snd (ClaimNextGame store clientID s), [CallClaimNextGame clientID]))) \<and>
    (fst (ClaimNextGame store clientID s) = Inl e \<and> e \<noteq> ErrNoGamesAvailable \<longrightarrow>
       GetNext (recording store) rl batchSize ip token clientID (s, []) =
         (Inl e, (snd (ClaimNextGame store clientID s), [CallClaimNextGame clientID]))) \<and>
    (fst (ClaimNextGame store clientID s) = Inl ErrNoGamesAvailable \<and>
     fst (CreateWaitingBatch store batchSize (snd (ClaimNextGame store clientID s))) = Some ce \<longrightarrow>
       GetNext (recording store) rl batchSize ip token clientID (s, []) =
         (Inl ce,
          (snd (CreateWaitingBatch store batchSize (snd (ClaimNextGame store clientID s))),
           [CallClaimNextGame clientID, CallCreateWaitingBatch batchSize]))) \<and>
    (fst (ClaimNextGame store clientID s) = Inl ErrNoGamesAvailable \<and>
     fst (CreateWaitingBatch store batchSize (snd (ClaimNextGame store clientID s))) = None \<longrightarrow>
       GetNext (recording store) rl batchSize ip token clientID (s, []) =
         ((case fst (ClaimNextGame store clientID
               (snd (CreateWaitingBatch store batchSize (snd (ClaimNextGame store clientID s))))) of
             Inl e2 \<Rightarrow> Inl e2
           | Inr (g2, hist2) \<Rightarrow> Inr \<lparr>next_Game = g2, next_History = hist2\<rparr>),
          (snd (ClaimNextGame store clientID
              (snd (CreateWaitingBatch store batchSize (snd (ClaimNextGame store clientID s))))),
           [CallClaimNextGame clientID, CallCreateWaitingBatch batchSize,
            CallClaimNextGame clientID]))) \<and>
    fst (GetNext (recording store) rl batchSize ip token clientID (s, [])) =
      fst (GetNext store rl batchSize ip token clientID s) \<and>
    fst (snd (GetNext (recording store) rl batchSize ip token clientID (s, []))) =
      snd (GetNext store rl batchSize ip token clientID s)"
proof (intro conjI impI)
  assume "fst (ClaimNextGame store clientID s) = Inr (g, hist)"
  then show "GetNext (recording store) rl batchSize ip token clientID (s, []) =
         (Inr \<lparr>next_Game = g, next_History = hist\<rparr>,
          (snd (ClaimNextGame store clientID s), [CallClaimNextGame clientID]))"
    using assms by (simp add: GetNext_first_ok)
next
  assume "fst (ClaimNextGame store clientID s) = Inl e \<and> e \<noteq> ErrNoGamesAvailable"
  then show "GetNext (recording store) rl batchSize ip token clientID (s, []) =
         (Inl e, (snd (ClaimNextGame store clientID s), [CallClaimNextGame clientID]))"
    using assms by (simp add: GetNext_first_other_error)
next
  assume "fst (ClaimNextGame store clientID s) = Inl ErrNoGamesAvailable \<and>
     fst (CreateWaitingBatch store batchSize (snd (ClaimNextGame store clientID s))) = Some ce"
  then show "GetNext (recording store) rl batchSize ip token clientID (s, []) =
         (Inl ce,
          (snd (CreateWaitingBatch store batchSize (snd (ClaimNextGame store clientID s))),
           [CallClaimNextGame clientID, CallCreateWaitingBatch batchSize]))"
    using assms by (simp add: GetNext_create_error)
next
  assume "fst (ClaimNextGame store clientID s) = Inl ErrNoGamesAvailable \<and>
     fst (CreateWaitingBatch store batchSize (snd (ClaimNextGame store clientID s))) = None"
  then show "GetNext (recording store) rl batchSize ip token clientID (s, []) =
         ((case fst (ClaimNextGame store clientID
               (snd (CreateWaitingBatch store batchSize (snd (ClaimNextGame store clientID s))))) of
             Inl e2 \<Rightarrow> Inl e2
           | Inr (g2, hist2) \<Rightarrow> Inr \<lparr>next_Game = g2, next_History = hist2\<rparr>),
          (snd (ClaimNextGame store clientID
              (snd (CreateWaitingBatch store batchSize (snd (ClaimNextGame store clientID s))))),
           [CallClaimNextGame clientID, CallCreateWaitingBatch batchSize,
            CallClaimNextGame clientID]))"
    using assms by (simp add: GetNext_retry)
next
  show "fst (GetNext (recording store) rl batchSize ip token clientID (s, [])) =
      fst (GetNext store rl batchSize ip token clientID s)"
    by (simp add: GetNext_recording)
  show "fst (snd (GetNext (recording store) rl batchSize ip token clientID (s, []))) =
      snd (GetNext store rl batchSize ip token clientID s)"
    by (simp add: GetNext_recording)
qed

lemma example_port_simps:
  "ClaimNextGame example_port clientID s = memory_ClaimNextGame [1, 2, 3] clientID s"
  "CreateWaitingBatch example_port count s =
     (None, memory_CreateWaitingBatch fragment (\<lambda>i. of_nat i + 1) 0 count s)"
  "GetByID example_port gid s = (memory_GetByID gid s, s)"
  "PersistMove example_port = memory_PersistMove"
  by (simp_all add: example_port_def MemoryStore_def)

lemma empty_store_claim:
  "memory_ClaimNextGame order clientID empty_store = (Inl ErrNoGamesAvailable, empty_store)"
proof -
  have "claim_loop empty_store clientID order = None"
    by (induction order) (simp_all add: empty_store_def)
  then show ?thesis
    by (rule memory_ClaimNextGame_None)
qed

lemma empty_store_batch_0:
  "memory_CreateWaitingBatch fragment ids now 0 empty_store = empty_store"
  by (simp add: memory_CreateWaitingBatch_def rounds_def empty_store_def)

lemma empty_store_batch_1:
  "memory_CreateWaitingBatch fragment (\<lambda>i. of_nat i + 1) 0 1 empty_store =
     empty_store\<lparr>games := [1 \<mapsto> (NewGame fragment 1 0)\<lparr>Status := StatusWaiting\<rparr>]\<rparr>"
proof -
  have r1: "rounds 1 = 1"
    by (simp add: rounds_def)
  have u: "[0..<1] = [0]"
    by (simp add: upt_rec)
  show ?thesis
    by (simp add: memory_CreateWaitingBatch_def r1 u empty_store_def)
qed

lemma batch_1_claim:
  "fst (memory_ClaimNextGame [1, 2, 3] 9
     (empty_store\<lparr>games := [1 \<mapsto> (NewGame fragment 1 0)\<lparr>Status := StatusWaiting\<rparr>]\<rparr>)) =
   Inr ((NewGame fragment 1 0)\<lparr>Status := StatusOngoing\<rparr>, [])"
proof -
  have "claim_loop (empty_store\<lparr>games := [1 \<mapsto> (NewGame fragment 1 0)\<lparr>Status := StatusWaiting\<rparr>]\<rparr>)
      9 [1, 2, 3] = Some ((NewGame fragment 1 0)\<lparr>Status := StatusWaiting\<rparr>)"
    by (simp add: empty_store_def NewGame_def fromChessGame_def)
  from memory_ClaimNextGame_Some [OF this] show ?thesis
    by (simp add: history_of_def empty_store_def)
qed

theorem GetNext_protocol_witness:
  "AlwaysAllow ''10.0.0.1'' ''token'' \<and>
   fst (ClaimNextGame example_port 9 empty_store) = Inl ErrNoGamesAvailable \<and>
   fst (CreateWaitingBatch example_port 0 (snd (ClaimNextGame example_port 9 empty_store))) = None \<and>
   GetNext (recording example_port) AlwaysAllow 0 ''10.0.0.1'' ''token'' 9 (empty_store, []) =
     (Inl ErrNoGamesAvailable,
      (empty_store, [CallClaimNextGame 9, CallCreateWaitingBatch 0, CallClaimNextGame 9])) \<and>
   GetNext (recording example_port) AlwaysAllow 1 ''10.0.0.1'' ''token'' 9 (empty_store, []) =
     (Inr \<lparr>next_Game = (NewGame fragment 1 0)\<lparr>Status := StatusOngoing\<rparr>, next_History = []\<rparr>,
      (snd (memory_ClaimNextGame [1, 2, 3] 9
         (empty_store\<lparr>games := [1 \<mapsto> (NewGame fragment 1 0)\<lparr>Status := StatusWaiting\<rparr>]\<rparr>)),
       [CallClaimNextGame 9, CallCreateWaitingBatch 1, CallClaimNextGame 9])) \<and>
   fst (ClaimNextGame example_port 9 two_games_store) =
     Inr ((NewGame fragment 1 10)\<lparr>Status := StatusOngoing\<rparr>, []) \<and>
   GetNext (recording example_port) AlwaysAllow 1 ''10.0.0.1'' ''token'' 9 (two_games_store, []) =
     (Inr \<lparr>next_Game = (NewGame fragment 1 10)\<lparr>Status := StatusOngoing\<rparr>, next_History = []\<rparr>,
      (snd (ClaimNextGame example_port 9 two_games_store), [CallClaimNextGame 9]))"
proof -
  have allow: "AlwaysAllow ''10.0.0.1'' ''token''"
    by (simp add: AlwaysAllow_def)
  have c1: "fst (ClaimNextGame example_port 9 empty_store) = Inl ErrNoGamesAvailable"
    and s1: "snd (ClaimNextGame example_port 9 empty_store) = empty_store"
    by (simp_all add: example_port_simps empty_store_claim)
  have b0: "fst (CreateWaitingBatch example_port 0 (snd (ClaimNextGame example_port 9 empty_store))) = None"
    and b1: "fst (CreateWaitingBatch example_port 1 (snd (ClaimNextGame example_port 9 empty_store))) = None"
    by (simp_all add: example_port_simps)
  note t0 = GetNext_protocol [where rl = AlwaysAllow and ip = "''10.0.0.1''" and token = "''token''"
      and store = example_port and clientID = 9
      and s = empty_store and batchSize = 0, OF allow, THEN conjunct2, THEN conjunct2, THEN conjunct2,
      THEN conjunct1, rule_format, OF conjI, OF c1 b0]
  note t1 = GetNext_protocol [where rl = AlwaysAllow and ip = "''10.0.0.1''" and token = "''token''"
      and store = example_port and clientID = 9
      and s = empty_store and batchSize = 1, OF allow, THEN conjunct2, THEN conjunct2, THEN conjunct2,
      THEN conjunct1, rule_format, OF conjI, OF c1 b1]
  have r0: "GetNext (recording example_port) AlwaysAllow 0 ''10.0.0.1'' ''token'' 9 (empty_store, []) =
     (Inl ErrNoGamesAvailable,
      (empty_store, [CallClaimNextGame 9, CallCreateWaitingBatch 0, CallClaimNextGame 9]))"
    using t0 by (simp add: example_port_simps empty_store_claim empty_store_batch_0)
  have r1: "GetNext (recording example_port) AlwaysAllow 1 ''10.0.0.1'' ''token'' 9 (empty_store, []) =
     (Inr \<lparr>next_Game = (NewGame fragment 1 0)\<lparr>Status := StatusOngoing\<rparr>, next_History = []\<rparr>,
      (snd (memory_ClaimNextGame [1, 2, 3] 9
         (empty_store\<lparr>games := [1 \<mapsto> (NewGame fragment 1 0)\<lparr>Status := StatusWaiting\<rparr>]\<rparr>)),
       [CallClaimNextGame 9, CallCreateWaitingBatch 1, CallClaimNextGame 9]))"
    using t1 by (simp add: example_port_simps empty_store_claim empty_store_batch_1 batch_1_claim)
  have "claim_loop two_games_store 9 [1, 2, 3] =
      Some ((NewGame fragment 1 10)\<lparr>Status := StatusWaiting\<rparr>)"
    by (simp add: two_games_store_def NewGame_def fromChessGame_def)
  from memory_ClaimNextGame_Some [OF this]
  have c2: "fst (ClaimNextGame example_port 9 two_games_store) =
     Inr ((NewGame fragment 1 10)\<lparr>Status := StatusOngoing\<rparr>, [])"
    by (simp add: example_port_simps history_of_def two_games_store_def)
  note t2 = GetNext_protocol [where rl = AlwaysAllow and ip = "''10.0.0.1''" and token = "''token''"
      and store = example_port and clientID = 9
      and s = two_games_store and batchSize = 1, OF allow, THEN conjunct1, rule_format, OF c2]
  show ?thesis
    using allow c1 b0 r0 r1 c2 t2 by (intro conjI) assumption+
qed

lemma SubmitMove_stale:
  assumes "rl ip token" "fst (GetByID store gameID s) = Inr g"
    "StateVersion g \<noteq> ExpectedVersion req"
  shows "SubmitMove lib (recording store) rl newID now ip token gameID clientID req (s, []) =
     (Inl ErrVersionConflict, (snd (GetByID store gameID s), [CallGetByID gameID]))"
  using assms by (simp add: SubmitMove_def recording_simps)

lemma SubmitMove_stale_memory:
  assumes "rl ip token" "games m gameID = Some g" "StateVersion g \<noteq> ExpectedVersion req"
  shows "SubmitMove lib (MemoryStore lib2 order ids t) rl newID now ip token gameID clientID req m =
     (Inl ErrVersionConflict, m)"
  using assms by (simp add: SubmitMove_def MemoryStore_def memory_GetByID_def)

text \<open>
  Claim C10. In \<open>SubmitMove\<close> the version check comes before the rule engine. For a
  request that the rate limiter admits and whose game is found with a \<open>StateVersion\<close>
  other than the request's \<open>ExpectedVersion\<close>, the result is \<open>ErrVersionConflict\<close>,
  whatever the move string, the client and the chess library are; the only call to the
  store is the read \<open>GetByID\<close>, and the in-memory store is left as it was.
\<close>

theorem SubmitMove_version_check_first:
  "(rl ip token \<and> fst (GetByID store gameID s) = Inr g \<and>
      StateVersion g \<noteq> ExpectedVersion req \<longrightarrow>
      SubmitMove lib (recording store) rl newID now ip token gameID clientID req (s, []) =
        (Inl ErrVersionConflict, (snd (GetByID store gameID s), [CallGetByID gameID]))) \<and>
   (rl ip token \<and> games m gameID = Some g \<and> StateVersion g \<noteq> ExpectedVersion req \<longrightarrow>
      SubmitMove lib (MemoryStore lib2 order ids t) rl newID now ip token gameID clientID req m =
        (Inl ErrVersionConflict, m))"
proof (intro conjI impI)
  assume "rl ip token \<and> fst (GetByID store gameID s) = Inr g \<and>
      StateVersion g \<noteq> ExpectedVersion req"
  then show "SubmitMove lib (recording store) rl newID now ip token gameID clientID req (s, []) =
        (Inl ErrVersionConflict, (snd (GetByID store gameID s), [CallGetByID gameID]))"
    by (simp add: SubmitMove_stale)
next
  assume "rl ip token \<and> games m gameID = Some g \<and> StateVersion g \<noteq> ExpectedVersion req"
  then show "SubmitMove lib (MemoryStore lib2 order ids t) rl newID now ip token gameID clientID req m =
        (Inl ErrVersionConflict, m)"
    by (simp add: SubmitMove_stale_memory)
qed

theorem SubmitMove_version_check_first_witness:
  "AlwaysAllow ''10.0.0.1'' ''token'' \<and>
   fst (GetByID example_port 1 example_store) = Inr (NewGame fragment 1 0) \<and>
   games example_store 1 = Some (NewGame fragment 1 0) \<and>
   StateVersion (NewGame fragment 1 0) \<noteq> ExpectedVersion stale_request \<and>
   \<not> isValidUCISyntax (req_UCI stale_request) \<and>
   SubmitMove fragment (recording example_port) AlwaysAllow 7 5 ''10.0.0.1'' ''token'' 1 5
       stale_request (example_store, []) =
     (Inl ErrVersionConflict, (example_store, [CallGetByID 1])) \<and>
   SubmitMove fragment example_port AlwaysAllow 7 5 ''10.0.0.1'' ''token'' 1 5
       stale_request example_store =
     (Inl ErrVersionConflict, example_store) \<and>
   SubmitMove fragment example_port AlwaysAllow 7 5 ''10.0.0.1'' ''token'' 1 5
       (stale_request\<lparr>ExpectedVersion := 0\<rparr>) example_store =
     (Inl ErrInvalidUCI, example_store)"
proof -
  have allow: "AlwaysAllow ''10.0.0.1'' ''token''"
    by (simp add: AlwaysAllow_def)
  have g: "fst (GetByID example_port 1 example_store) = Inr (NewGame fragment 1 0)"
    and sg: "snd (GetByID example_port 1 example_store) = example_store"
    by (simp_all add: example_port_simps memory_GetByID_def example_store_facts)
  have v: "StateVersion (NewGame fragment 1 0) \<noteq> ExpectedVersion stale_request"
    by (simp add: NewGame_def fromChessGame_def stale_request_def)
  have u: "\<not> isValidUCISyntax (req_UCI stale_request)"
    by (simp add: isValidUCISyntax_def stale_request_def byte_def)
  note t = SubmitMove_version_check_first [where rl = AlwaysAllow and ip = "''10.0.0.1''"
      and token = "''token''" and store = example_port and gameID = 1 and s = example_store
      and g = "NewGame fragment 1 0" and req = stale_request and lib = fragment and newID = 7
      and now = 5 and clientID = 5 and m = example_store and ?lib2.0 = fragment
      and order = "\<lambda>s. [1, 2, 3]" and ids = "\<lambda>i. of_nat i + 1" and t = 0]
  have a: "SubmitMove fragment (recording example_port) AlwaysAllow 7 5 ''10.0.0.1'' ''token'' 1 5
       stale_request (example_store, []) =
     (Inl ErrVersionConflict, (example_store, [CallGetByID 1]))"
    using t [THEN conjunct1] allow g v sg by simp
  have b: "SubmitMove fragment example_port AlwaysAllow 7 5 ''10.0.0.1'' ''token'' 1 5
       stale_request example_store =
     (Inl ErrVersionConflict, example_store)"
    using t [THEN conjunct2] allow example_store_facts(4) v by (simp add: example_port_def)
  have c: "SubmitMove fragment example_port AlwaysAllow 7 5 ''10.0.0.1'' ''token'' 1 5
       (stale_request\<lparr>ExpectedVersion := 0\<rparr>) example_store =
     (Inl ErrInvalidUCI, example_store)"
    using u
    by (simp add: SubmitMove_def example_port_simps memory_GetByID_def example_store_facts
        AlwaysAllow_def ApplyMove_def NewGame_def fromChessGame_def)
  show ?thesis
    using allow g example_store_facts(4) v u a b c by (intro conjI) assumption+
qed

section \<open>The invariant of the in-memory store\<close>

lemma replays_append:
  "replays lib fen (h @ [x]) final =
     (\<exists>mid. replays lib fen h mid \<and> FENBefore x = mid \<and>
        (case chess_FEN lib mid of
           None \<Rightarrow> False
         | Some cg \<Rightarrow>
             (case chess_MoveStr lib cg (UCI x) of
                None \<Rightarrow> False
              | Some newCG \<Rightarrow> FENAfter x = chess_String lib newCG)) \<and>
        final = FENAfter x)"
proof (induction h arbitrary: fen)
  case Nil
  then show ?case by auto
next
  case (Cons y ys)
  then show ?case by auto
qed

lemma ID_NewGame [simp]: "ID (NewGame lib k now) = k"
  by (simp add: NewGame_def fromChessGame_def)

lemma fold_new_games:
  "fold (\<lambda>i m. m(ids i \<mapsto> f i)) [0..<n] m k = m k \<or>
   (\<exists>i < n. k = ids i \<and> fold (\<lambda>i m. m(ids i \<mapsto> f i)) [0..<n] m k = Some (f i))"
proof (induction n)
  case 0
  then show ?case by simp
next
  case (Suc n)
  show ?case
  proof (cases "k = ids n")
    case True
    then show ?thesis by auto
  next
    case False
    with Suc show ?thesis
      by (auto simp: less_Suc_eq)
  qed
qed

lemma game_inv_history:
  "history_of s2 k = history_of s k \<Longrightarrow> game_inv lib s2 k g = game_inv lib s k g"
  by (simp add: game_inv_def)

lemma game_inv_Status:
  "game_inv lib s k (g\<lparr>Status := st\<rparr>) = game_inv lib s k g"
  by (simp add: game_inv_def)

lemma game_inv_NewGame:
  assumes "chess_Moves lib (chess_NewGame lib) = []" "history_of s k = []"
  shows "game_inv lib s k (NewGame lib k now)"
  using assms by (simp add: game_inv_def NewGame_def fromChessGame_def)

lemma store_inv_New:
  assumes "chess_Moves lib (chess_NewGame lib) = []"
  shows "store_inv lib (memory_New lib ids now seedCount)"
  unfolding store_inv_def
proof
  fix k
  let ?s = "memory_New lib ids now seedCount"
  have h: "\<And>k. history_of ?s k = []"
    by (simp add: memory_New_def history_of_def)
  have g: "games ?s = fold (\<lambda>i m. m(ids i \<mapsto> NewGame lib (ids i) now))
      [0..<rounds seedCount] Map.empty"
    by (simp add: memory_New_def)
  from fold_new_games [of ids "\<lambda>i. NewGame lib (ids i) now" "rounds seedCount" Map.empty k]
  have "games ?s k = None \<or> games ?s k = Some (NewGame lib k now)"
    unfolding g by auto
  then show "case games ?s k of None \<Rightarrow> history_of ?s k = [] | Some g \<Rightarrow> game_inv lib ?s k g"
    using h game_inv_NewGame [OF assms h] by auto
qed

lemma store_inv_CreateWaitingBatch:
  assumes m: "chess_Moves lib (chess_NewGame lib) = []"
    and inv: "store_inv lib s"
    and fr: "\<forall>i \<in> set [0..<rounds count]. games s (ids i) = None"
  shows "store_inv lib (memory_CreateWaitingBatch lib ids now count s)"
  unfolding store_inv_def
proof
  fix k
  let ?s = "memory_CreateWaitingBatch lib ids now count s"
  have h: "\<And>k. history_of ?s k = history_of s k"
    by (simp add: memory_CreateWaitingBatch_def history_of_def)
  have g: "games ?s = fold (\<lambda>i m. m(ids i \<mapsto> (NewGame lib (ids i) now)\<lparr>Status := StatusWaiting\<rparr>))
      [0..<rounds count] (games s)"
    by (simp add: memory_CreateWaitingBatch_def)
  from fold_new_games [of ids "\<lambda>i. (NewGame lib (ids i) now)\<lparr>Status := StatusWaiting\<rparr>"
      "rounds count" "games s" k]
  have "games ?s k = games s k \<or>
      (\<exists>i < rounds count. k = ids i \<and>
         games ?s k = Some ((NewGame lib k now)\<lparr>Status := StatusWaiting\<rparr>))"
    unfolding g by auto
  then show "case games ?s k of None \<Rightarrow> history_of ?s k = [] | Some g \<Rightarrow> game_inv lib ?s k g"
  proof
    assume same: "games ?s k = games s k"
    from inv have "case games s k of None \<Rightarrow> history_of s k = [] | Some g \<Rightarrow> game_inv lib s k g"
      by (simp add: store_inv_def)
    then show ?thesis
      using same h game_inv_history [of ?s k s lib] by (auto split: option.splits)
  next
    assume "\<exists>i < rounds count. k = ids i \<and>
         games ?s k = Some ((NewGame lib k now)\<lparr>Status := StatusWaiting\<rparr>)"
    then obtain i where i: "i < rounds count" "k = ids i"
      and new: "games ?s k = Some ((NewGame lib k now)\<lparr>Status := StatusWaiting\<rparr>)"
      by blast
    from fr i have "games s k = None" by simp
    with inv have "history_of s k = []"
      by (auto simp: store_inv_def split: option.splits dest: spec [of _ k])
    then have "history_of ?s k = []" by (simp add: h)
    from game_inv_NewGame [OF m this] new show ?thesis
      by (simp add: game_inv_Status)
  qed
qed

lemma store_invD:
  "store_inv lib s \<Longrightarrow> games s k = Some g \<Longrightarrow> game_inv lib s k g"
  "store_inv lib s \<Longrightarrow> games s k = None \<Longrightarrow> history_of s k = []"
  by (auto simp: store_inv_def split: option.splits dest: spec [of _ k])

lemma history_of_claimed: "history_of (claimed s clientID chosen) k = history_of s k"
  by (simp add: claimed_def history_of_def)

lemma games_claimed:
  "games (claimed s clientID chosen) k =
     (if k = ID chosen \<and> Status chosen = StatusWaiting
      then Some (chosen\<lparr>Status := StatusOngoing\<rparr>) else games s k)"
  by (simp add: claimed_def)

lemma store_inv_claimed:
  assumes inv: "store_inv lib s" and c: "games s k0 = Some chosen"
  shows "store_inv lib (claimed s clientID chosen)"
  unfolding store_inv_def
proof
  fix k
  let ?s = "claimed s clientID chosen"
  have id: "ID chosen = k0"
    using store_invD(1) [OF inv c] by (simp add: game_inv_def)
  show "case games ?s k of None \<Rightarrow> history_of ?s k = [] | Some g \<Rightarrow> game_inv lib ?s k g"
  proof (cases "k = ID chosen \<and> Status chosen = StatusWaiting")
    case True
    have "game_inv lib s k chosen"
      using store_invD(1) [OF inv c] True id by simp
    then have "game_inv lib ?s k (chosen\<lparr>Status := StatusOngoing\<rparr>)"
      using game_inv_history [of ?s k s lib] by (simp add: history_of_claimed game_inv_Status)
    with True show ?thesis
      by (simp add: games_claimed)
  next
    case False
    then have same: "games ?s k = games s k"
      by (auto simp: games_claimed)
    show ?thesis
    proof (cases "games s k")
      case None
      with same store_invD(2) [OF inv None] show ?thesis
        by (simp add: history_of_claimed)
    next
      case (Some g)
      from store_invD(1) [OF inv Some] have "game_inv lib ?s k g"
        using game_inv_history [of ?s k s lib] by (simp add: history_of_claimed)
      with same Some show ?thesis by simp
    qed
  qed
qed

lemma store_inv_ClaimNextGame:
  assumes "store_inv lib s"
  shows "store_inv lib (snd (memory_ClaimNextGame order clientID s))"
proof (cases "claim_loop s clientID order")
  case None
  with assms show ?thesis
    by (simp add: memory_ClaimNextGame_None)
next
  case (Some chosen)
  from claim_loop_Some [OF Some] obtain k0 where "games s k0 = Some chosen" by blast
  from store_inv_claimed [OF assms this] show ?thesis
    by (simp add: memory_ClaimNextGame_Some [OF Some])
qed

lemma history_of_ClaimNextGame:
  "history_of (snd (memory_ClaimNextGame order clientID s)) k = history_of s k"
  using memory_ClaimNextGame_keeps [of order clientID s]
  by (simp add: history_of_def)

text \<open>The record that \<open>ApplyMove\<close> returns never makes \<open>PersistMove\<close> panic.\<close>

lemma ApplyMove_rec_UCI:
  assumes "ApplyMove lib newID g uci now = Inr (newG, rec)"
  shows "rec_UCI rec = uci \<and> 4 \<le> length uci"
proof -
  from ApplyMove_InrD [OF assms] have "isValidUCISyntax uci" "rec_UCI rec = uci"
    by auto
  then show ?thesis
    by (auto simp: isValidUCISyntax_def split: if_splits)
qed

lemma memory_PersistMove_applied:
  assumes "ApplyMove lib newID g uci now = Inr (newG, rec)"
  shows "(\<exists>e. memory_PersistMove gameID clientID newG rec ply s = (Inl e, s)) \<or>
     (\<exists>h s2. memory_PersistMove gameID clientID newG rec ply s = (Inr h, s2))"
proof -
  have len: "\<not> length (rec_UCI rec) < 4"
    using ApplyMove_rec_UCI [OF assms] by simp
  show ?thesis
    using memory_PersistMove_cases [of s gameID clientID newG]
      memory_PersistMove_NotAssigned [of s gameID clientID newG rec ply]
      memory_PersistMove_AlreadyMoved [of s gameID clientID newG rec ply]
      memory_PersistMove_NotFound [of s gameID clientID newG rec ply]
      memory_PersistMove_VersionConflict [of s gameID clientID _ newG rec ply]
      memory_PersistMove_pass [of s gameID clientID _ newG rec ply] len
    by (elim disjE conjE exE) auto
qed

lemma replays_unique:
  "replays lib fen h f1 \<Longrightarrow> replays lib fen h f2 \<Longrightarrow> f1 = f2"
  by (induction h arbitrary: fen) auto

lemma replays_chain:
  "replays lib fen h final \<Longrightarrow>
     (h = [] \<longrightarrow> final = fen) \<and>
     (h \<noteq> [] \<longrightarrow> FENBefore (h ! 0) = fen \<and> final = FENAfter (last h)) \<and>
     (\<forall>i. Suc i < length h \<longrightarrow> FENBefore (h ! Suc i) = FENAfter (h ! i))"
proof (induction h arbitrary: fen)
  case Nil
  then show ?case by simp
next
  case (Cons x xs)
  from Cons.prems have b: "FENBefore x = fen" and r: "replays lib (FENAfter x) xs final"
    by simp_all
  note ih = Cons.IH [OF r]
  have last: "final = FENAfter (last (x # xs))"
    using ih by (cases xs) auto
  have chain: "\<forall>i. Suc i < length (x # xs) \<longrightarrow>
      FENBefore ((x # xs) ! Suc i) = FENAfter ((x # xs) ! i)"
  proof (intro allI impI)
    fix i assume i: "Suc i < length (x # xs)"
    show "FENBefore ((x # xs) ! Suc i) = FENAfter ((x # xs) ! i)"
    proof (cases i)
      case 0
      with i have "xs \<noteq> []" by auto
      with ih 0 show ?thesis by simp
    next
      case (Suc j)
      with i have "Suc j < length xs" by simp
      with ih Suc show ?thesis by simp
    qed
  qed
  show ?case
    using b last chain by simp
qed

lemma of_nat_goint_inj:
  assumes "n < 2 ^ 64" "m < 2 ^ 64" "(of_nat n :: goint) = of_nat m"
  shows "n = m"
proof -
  from assms(3) have "unat (of_nat n :: goint) = unat (of_nat m :: goint)"
    by simp
  then have "n mod 2 ^ 64 = m mod 2 ^ 64"
    by (simp add: unat_of_nat)
  with assms(1,2) show ?thesis by simp
qed

lemma game_invD:
  assumes "game_inv lib s k g"
  shows "ID g = k" "StateVersion g = of_nat (length (history_of s k))"
    "PlyCount g = of_nat (length (history_of s k))"
    "\<forall>i < length (history_of s k). Ply (history_of s k ! i) = of_nat i"
    "replays lib (chess_String lib (chess_NewGame lib)) (history_of s k) (FEN g)"
  using assms by (simp_all add: game_inv_def)

lemma store_inv_accept:
  assumes inv: "store_inv lib s" and gi: "game_inv lib s gameID g"
    and am: "ApplyMove lib newID g uci now = Inr (newGame, rec)"
  shows "store_inv lib
     (s\<lparr>games := (games s)(gameID \<mapsto> newGame),
        moved := mv,
        history := (history s)(gameID \<mapsto>
          history_of s gameID @ [history_item clientID rec (PlyCount newGame - 1)])\<rparr>)"
    (is "store_inv lib ?s")
  unfolding store_inv_def
proof
  fix k
  let ?h = "history_of s gameID"
  let ?item = "history_item clientID rec (PlyCount newGame - 1)"
  show "case games ?s k of None \<Rightarrow> history_of ?s k = [] | Some x \<Rightarrow> game_inv lib ?s k x"
  proof (cases "k = gameID")
    case False
    then have same: "games ?s k = games s k" "history_of ?s k = history_of s k"
      by (simp_all add: history_of_def)
    show ?thesis
    proof (cases "games s k")
      case None
      with same store_invD(2) [OF inv None] show ?thesis by simp
    next
      case (Some x)
      from store_invD(1) [OF inv Some] have "game_inv lib ?s k x"
        using game_inv_history [of ?s k s lib] same by simp
      with same Some show ?thesis by simp
    qed
  next
    case True
    note id = game_invD(1) [OF gi] and sv = game_invD(2) [OF gi] and pc = game_invD(3) [OF gi]
      and pl = game_invD(4) [OF gi] and rp = game_invD(5) [OF gi]
    from ApplyMove_InrD [OF am] obtain cg newCG where
      fen: "chess_FEN lib (FEN g) = Some cg" and
      mv: "chess_MoveStr lib cg uci = Some newCG" and
      n1: "ID newGame = ID g" "StateVersion newGame = StateVersion g + 1"
        "PlyCount newGame = PlyCount g + 1" "FEN newGame = chess_String lib newCG" and
      r1: "rec_UCI rec = uci" "rec_FENBefore rec = FEN g" "rec_FENAfter rec = chess_String lib newCG"
      by auto
    have hs: "history_of ?s gameID = ?h @ [?item]"
      by (simp add: history_of_def)
    have item: "Ply ?item = of_nat (length ?h)" "UCI ?item = uci" "FENBefore ?item = FEN g"
      "FENAfter ?item = chess_String lib newCG"
      by (simp_all add: history_item_def n1 pc r1)
    have plies: "\<forall>i < length (?h @ [?item]). Ply ((?h @ [?item]) ! i) = of_nat i"
      using pl item(1) by (auto simp: nth_append less_Suc_eq)
    have rep: "replays lib (chess_String lib (chess_NewGame lib)) (?h @ [?item]) (FEN newGame)"
      unfolding replays_append using rp fen mv item n1 by auto
    have "game_inv lib ?s gameID newGame"
      unfolding game_inv_def hs using id n1 sv pc plies rep by simp
    with True show ?thesis by simp
  qed
qed

text \<open>
  A pending call whose \<open>PersistMove\<close> passes the compare-and-swap was computed from the
  position that is stored now: the stored version is the version it read, so no move has
  been written since it read.
\<close>

lemma pending_game_inv:
  assumes inv: "store_inv lib s" and p: "pending_inv lib s p"
    and cur: "games s (pm_gameID p) = Some cur"
    and cas: "StateVersion cur = StateVersion (pm_newGame p) - 1"
    and small: "length (history_of s (pm_gameID p)) < 2 ^ 64"
  shows "\<exists>g newID uci now. game_inv lib s (pm_gameID p) g \<and>
     ApplyMove lib newID g uci now = Inr (pm_newGame p, pm_rec p) \<and>
     pm_ply p = PlyCount (pm_newGame p) - 1"
proof -
  let ?h = "history_of s (pm_gameID p)"
  from p obtain g newID uci now n where
    am: "ApplyMove lib newID g uci now = Inr (pm_newGame p, pm_rec p)" and
    ply: "pm_ply p = PlyCount (pm_newGame p) - 1" and
    id: "ID g = pm_gameID p" and
    n: "n \<le> length ?h" and
    sv: "StateVersion g = of_nat n" and
    pc: "PlyCount g = of_nat n" and
    rp: "replays lib (chess_String lib (chess_NewGame lib)) (take n ?h) (FEN g)"
    unfolding pending_inv_def by blast
  from ApplyMove_InrD [OF am] have "StateVersion (pm_newGame p) = StateVersion g + 1"
    by auto
  with cas have "StateVersion cur = StateVersion g"
    by simp
  moreover have "StateVersion cur = of_nat (length ?h)"
    using game_invD(2) [OF store_invD(1) [OF inv cur]] .
  ultimately have "(of_nat n :: goint) = of_nat (length ?h)"
    using sv by simp
  moreover from n small have "n < 2 ^ 64" by simp
  ultimately have nl: "n = length ?h"
    using small of_nat_goint_inj by blast
  have "game_inv lib s (pm_gameID p) g"
    unfolding game_inv_def
    using id sv pc rp nl game_invD(4) [OF store_invD(1) [OF inv cur]] by simp
  with am ply show ?thesis by blast
qed

lemma history_of_PersistMove:
  "history_of (snd (memory_PersistMove gameID clientID newGame rec ply s)) k =
     history_of s k @
     (if gameID = k \<and>
         (case fst (memory_PersistMove gameID clientID newGame rec ply s) of
            Inl e \<Rightarrow> False | Inr h \<Rightarrow> True)
      then [history_item clientID rec ply] else [])"
  using memory_PersistMove_cases [of s gameID clientID newGame]
    memory_PersistMove_NotAssigned [of s gameID clientID newGame rec ply]
    memory_PersistMove_AlreadyMoved [of s gameID clientID newGame rec ply]
    memory_PersistMove_NotFound [of s gameID clientID newGame rec ply]
    memory_PersistMove_VersionConflict [of s gameID clientID _ newGame rec ply]
    memory_PersistMove_pass [of s gameID clientID _ newGame rec ply]
  by (elim disjE conjE exE) (auto simp: history_of_def)

lemma store_inv_PersistMove:
  assumes inv: "store_inv lib s" and p: "pending_inv lib s p"
    and small: "length (history_of s (pm_gameID p)) < 2 ^ 64"
  shows "store_inv lib (snd (memory_PersistMove (pm_gameID p) (pm_clientID p) (pm_newGame p)
     (pm_rec p) (pm_ply p) s))"
proof -
  from p obtain g0 :: Game and newID0 uci0 now0 where
    am0: "ApplyMove lib newID0 g0 uci0 now0 = Inr (pm_newGame p, pm_rec p)"
    unfolding pending_inv_def by blast
  from memory_PersistMove_applied [OF am0, of "pm_gameID p" "pm_clientID p" "pm_ply p" s]
  show ?thesis
  proof
    assume "\<exists>e. memory_PersistMove (pm_gameID p) (pm_clientID p) (pm_newGame p) (pm_rec p)
        (pm_ply p) s = (Inl e, s)"
    with inv show ?thesis by auto
  next
    assume "\<exists>h s2. memory_PersistMove (pm_gameID p) (pm_clientID p) (pm_newGame p) (pm_rec p)
        (pm_ply p) s = (Inr h, s2)"
    then obtain h s2 where
      pm: "memory_PersistMove (pm_gameID p) (pm_clientID p) (pm_newGame p) (pm_rec p)
        (pm_ply p) s = (Inr h, s2)"
      by blast
    from memory_PersistMove_success [OF pm] obtain cur where
      cur: "games s (pm_gameID p) = Some cur" and
      cas: "StateVersion cur = StateVersion (pm_newGame p) - 1" and
      h: "h = history_of s (pm_gameID p) @ [history_item (pm_clientID p) (pm_rec p) (pm_ply p)]" and
      s2: "s2 = s\<lparr>games := (games s)(pm_gameID p \<mapsto> pm_newGame p),
            moved := (moved s)(pm_gameID p \<mapsto>
              insert (pm_clientID p) (case moved s (pm_gameID p) of None \<Rightarrow> {} | Some m \<Rightarrow> m)),
            history := (history s)(pm_gameID p \<mapsto> h)\<rparr>"
      by blast
    from pending_game_inv [OF inv p cur cas small] obtain g :: Game and newID uci now where
      gi: "game_inv lib s (pm_gameID p) g" and
      am: "ApplyMove lib newID g uci now = Inr (pm_newGame p, pm_rec p)" and
      ply: "pm_ply p = PlyCount (pm_newGame p) - 1"
      by blast
    have eq: "snd (memory_PersistMove (pm_gameID p) (pm_clientID p) (pm_newGame p) (pm_rec p)
        (pm_ply p) s) =
        s\<lparr>games := (games s)(pm_gameID p \<mapsto> pm_newGame p),
          moved := (moved s)(pm_gameID p \<mapsto>
            insert (pm_clientID p) (case moved s (pm_gameID p) of None \<Rightarrow> {} | Some m \<Rightarrow> m)),
          history := (history s)(pm_gameID p \<mapsto>
            history_of s (pm_gameID p) @
              [history_item (pm_clientID p) (pm_rec p) (PlyCount (pm_newGame p) - 1)])\<rparr>"
      unfolding pm using s2 h ply by simp
    show ?thesis
      unfolding eq by (rule store_inv_accept [OF inv gi am])
  qed
qed

lemma pending_inv_mono:
  assumes "pending_inv lib s q"
    and "history_of s2 (pm_gameID q) = history_of s (pm_gameID q) @ ext"
  shows "pending_inv lib s2 q"
proof -
  let ?h = "history_of s (pm_gameID q)"
  from assms(1) obtain g :: Game and newID uci now n where
    am: "ApplyMove lib newID g uci now = Inr (pm_newGame q, pm_rec q)" and
    ply: "pm_ply q = PlyCount (pm_newGame q) - 1" and
    id: "ID g = pm_gameID q" and
    n: "n \<le> length ?h" and
    sv: "StateVersion g = of_nat n" and
    pc: "PlyCount g = of_nat n" and
    rp: "replays lib (chess_String lib (chess_NewGame lib)) (take n ?h) (FEN g)"
    unfolding pending_inv_def by blast
  have n2: "n \<le> length (history_of s2 (pm_gameID q))"
    using n assms(2) by simp
  have rp2: "replays lib (chess_String lib (chess_NewGame lib))
      (take n (history_of s2 (pm_gameID q))) (FEN g)"
    using rp n assms(2) by simp
  show ?thesis
    unfolding pending_inv_def
    using am ply id n2 sv pc rp2 by blast
qed

lemma pending_inv_prepare:
  assumes inv: "store_inv lib s"
    and pr: "submit_prepare lib rl newID now ip token gameID clientID req s = (Inr p, s1)"
  shows "pending_inv lib s p"
proof -
  from pr obtain g newGame rec where
    g: "games s gameID = Some g" and
    am: "ApplyMove lib newID g (req_UCI req) now = Inr (newGame, rec)" and
    p: "p = \<lparr>pm_gameID = gameID, pm_clientID = clientID, pm_newGame = newGame,
              pm_rec = rec, pm_ply = PlyCount newGame - 1\<rparr>"
    unfolding submit_prepare_unfold
    by (auto split: if_splits option.splits sum.splits prod.splits)
  note gi = store_invD(1) [OF inv g]
  have "take (length (history_of s gameID)) (history_of s gameID) = history_of s gameID"
    by simp
  then show ?thesis
    unfolding pending_inv_def p
    using am game_invD [OF gi]
    by (intro exI [of _ g] exI [of _ newID] exI [of _ "req_UCI req"] exI [of _ now]
        exI [of _ "length (history_of s gameID)"]) simp
qed

lemma history_step:
  "history_of (srv_store (step lib rl x srv)) k =
     history_of (srv_store srv) k @
     (case x of
        OpSubmitMove_PersistMove r \<Rightarrow>
          (case srv_pending srv r of
             None \<Rightarrow> []
           | Some p \<Rightarrow>
               if accepted lib rl x srv k
               then [history_item (pm_clientID p) (pm_rec p) (pm_ply p)] else [])
      | _ \<Rightarrow> [])"
proof (cases x)
  case (OpCreateWaitingBatch ids now count)
  then show ?thesis
    by (simp add: memory_CreateWaitingBatch_def history_of_def)
next
  case (OpClaimNextGame order clientID)
  then show ?thesis
    by (simp add: history_of_ClaimNextGame)
next
  case (OpSubmitMove_GetByID r newID now ip token gameID clientID req)
  have "srv_store (step lib rl x srv) = srv_store srv"
    using snd_submit_prepare [of lib rl newID now ip token gameID clientID req "srv_store srv"]
    by (auto simp: OpSubmitMove_GetByID split: prod.splits sum.splits)
  then show ?thesis
    by (simp add: OpSubmitMove_GetByID)
next
  case (OpSubmitMove_PersistMove r)
  show ?thesis
  proof (cases "srv_pending srv r")
    case None
    then show ?thesis
      by (simp add: OpSubmitMove_PersistMove)
  next
    case (Some p)
    then show ?thesis
      using history_of_PersistMove [of "pm_gameID p" "pm_clientID p" "pm_newGame p" "pm_rec p"
          "pm_ply p" "srv_store srv" k]
      by (simp add: OpSubmitMove_PersistMove snd_submit_commit fst_submit_commit)
  qed
qed

lemma length_history_step:
  "length (history_of (srv_store (step lib rl x srv)) k) =
     length (history_of (srv_store srv) k) + (if accepted lib rl x srv k then 1 else 0)"
  unfolding history_step [of lib rl x srv k]
  by (cases x) (auto split: option.splits)

lemma pending_inv_step:
  assumes "pending_inv lib (srv_store srv) q"
  shows "pending_inv lib (srv_store (step lib rl x srv)) q"
  using pending_inv_mono [OF assms history_step [of lib rl x srv "pm_gameID q"]] .

lemma store_inv_step:
  assumes m: "chess_Moves lib (chess_NewGame lib) = []"
    and inv: "server_inv lib srv" and fr: "fresh x srv"
    and small: "\<forall>k. length (history_of (srv_store srv) k) < 2 ^ 64"
  shows "store_inv lib (srv_store (step lib rl x srv))"
proof (cases x)
  case (OpCreateWaitingBatch ids now count)
  with inv fr show ?thesis
    by (simp add: server_inv_def store_inv_CreateWaitingBatch [OF m])
next
  case (OpClaimNextGame order clientID)
  with inv show ?thesis
    by (simp add: server_inv_def store_inv_ClaimNextGame)
next
  case (OpSubmitMove_GetByID r newID now ip token gameID clientID req)
  have "srv_store (step lib rl x srv) = srv_store srv"
    using snd_submit_prepare [of lib rl newID now ip token gameID clientID req "srv_store srv"]
    by (auto simp: OpSubmitMove_GetByID split: prod.splits sum.splits)
  with inv show ?thesis
    by (simp add: server_inv_def)
next
  case (OpSubmitMove_PersistMove r)
  show ?thesis
  proof (cases "srv_pending srv r")
    case None
    with inv show ?thesis
      by (simp add: OpSubmitMove_PersistMove server_inv_def)
  next
    case (Some p)
    from inv Some have si: "store_inv lib (srv_store srv)" and pi: "pending_inv lib (srv_store srv) p"
      by (auto simp: server_inv_def)
    from small have sm: "length (history_of (srv_store srv) (pm_gameID p)) < 2 ^ 64"
      by simp
    from store_inv_PersistMove [OF si pi sm] Some show ?thesis
      by (simp add: OpSubmitMove_PersistMove snd_submit_commit)
  qed
qed

lemma server_inv_step:
  assumes m: "chess_Moves lib (chess_NewGame lib) = []"
    and inv: "server_inv lib srv" and fr: "fresh x srv"
    and small: "\<forall>k. length (history_of (srv_store srv) k) < 2 ^ 64"
  shows "server_inv lib (step lib rl x srv)"
  unfolding server_inv_def
proof (intro conjI allI impI)
  show "store_inv lib (srv_store (step lib rl x srv))"
    by (rule store_inv_step [OF m inv fr small])
next
  fix r q
  assume q: "srv_pending (step lib rl x srv) r = Some q"
  have old: "\<And>r0 q0. srv_pending srv r0 = Some q0 \<Longrightarrow>
      pending_inv lib (srv_store (step lib rl x srv)) q0"
    using inv pending_inv_step unfolding server_inv_def by blast
  from inv have si: "store_inv lib (srv_store srv)"
    by (simp add: server_inv_def)
  show "pending_inv lib (srv_store (step lib rl x srv)) q"
  proof (cases x)
    case (OpCreateWaitingBatch ids now count)
    with q have "srv_pending srv r = Some q" by simp
    then show ?thesis by (rule old)
  next
    case (OpClaimNextGame order clientID)
    with q have "srv_pending srv r = Some q" by simp
    then show ?thesis by (rule old)
  next
    case (OpSubmitMove_GetByID r1 newID now ip token gameID clientID req)
    obtain res s1 where
      pr: "submit_prepare lib rl newID now ip token gameID clientID req (srv_store srv) = (res, s1)"
      by (cases "submit_prepare lib rl newID now ip token gameID clientID req (srv_store srv)")
    show ?thesis
    proof (cases res)
      case (Inl e)
      with pr q OpSubmitMove_GetByID have "srv_pending srv r = Some q" by simp
      then show ?thesis by (rule old)
    next
      case (Inr p)
      show ?thesis
      proof (cases "r = r1")
        case False
        with pr q Inr OpSubmitMove_GetByID have "srv_pending srv r = Some q" by simp
        then show ?thesis by (rule old)
      next
        case True
        with pr q Inr OpSubmitMove_GetByID have qp: "q = p" by simp
        from pending_inv_prepare [OF si pr [unfolded Inr]]
        have "pending_inv lib (srv_store srv) q" by (simp add: qp)
        then show ?thesis by (rule pending_inv_step)
      qed
    qed
  next
    case (OpSubmitMove_PersistMove r1)
    from q have "srv_pending srv r = Some q"
      by (auto simp: OpSubmitMove_PersistMove split: option.splits if_splits)
    then show ?thesis by (rule old)
  qed
qed

lemma run_inv:
  assumes m: "chess_Moves lib (chess_NewGame lib) = []"
  shows "server_inv lib srv \<Longrightarrow> fresh_ids lib rl tr srv \<Longrightarrow>
     (\<forall>j. length (history_of (srv_store srv) j) + length tr < 2 ^ 64) \<Longrightarrow>
     server_inv lib (run lib rl tr srv) \<and>
     length (history_of (srv_store (run lib rl tr srv)) k) =
       length (history_of (srv_store srv) k) + accepted_moves lib rl tr srv k"
proof (induction tr arbitrary: srv)
  case Nil
  then show ?case by simp
next
  case (Cons x xs)
  from Cons.prems have fr: "fresh x srv" "fresh_ids lib rl xs (step lib rl x srv)"
    by simp_all
  have small: "\<forall>j. length (history_of (srv_store srv) j) < 2 ^ 64"
  proof
    fix j
    from Cons.prems(3) have "length (history_of (srv_store srv) j) + length (x # xs) < 2 ^ 64"
      by blast
    then show "length (history_of (srv_store srv) j) < 2 ^ 64" by simp
  qed
  have inv: "server_inv lib (step lib rl x srv)"
    by (rule server_inv_step [OF m Cons.prems(1) fr(1) small])
  have bound: "\<forall>j. length (history_of (srv_store (step lib rl x srv)) j) + length xs < 2 ^ 64"
  proof
    fix j
    from Cons.prems(3) have "length (history_of (srv_store srv) j) + length (x # xs) < 2 ^ 64"
      by blast
    then show "length (history_of (srv_store (step lib rl x srv)) j) + length xs < 2 ^ 64"
      unfolding length_history_step [of lib rl x srv j] by simp
  qed
  from Cons.IH [OF inv fr(2) bound] length_history_step [of lib rl x srv k]
  show ?case by simp
qed

lemma sint_of_nat_small:
  assumes "n < 2 ^ 63"
  shows "sint (of_nat n :: goint) = int n"
proof -
  have "(of_nat n :: goint) = word_of_int (int n)"
    by simp
  then have "sint (of_nat n :: goint) = signed_take_bit (LENGTH(64) - 1) (int n)"
    by (simp only: sint_sbintrunc')
  also have "\<dots> = int n"
    using assms by (intro signed_take_bit_int_eq_self) auto
  finally show ?thesis .
qed

text \<open>
  Claim C3. A store is created by \<open>New\<close> with games from the initial position, and the
  server runs any sequence of store calls: batch creations, claims, and the \<open>GetByID\<close>
  and \<open>PersistMove\<close> calls of any number of \<open>SubmitMove\<close> requests, interleaved in any
  way, so that other requests may write moves of a game between the two calls of a
  request. The library's new game has no moves, generated identifiers are new, and the
  run has fewer than \<open>2^64\<close> calls (no version counter comes round to an old value).
  Then for every game of the store, with \<open>N\<close> the number of moves accepted for it: its
  history has \<open>N\<close> items, its \<open>StateVersion\<close> is \<open>N\<close> (as a Go \<open>int\<close>; as a signed
  number for \<open>N\<close> below \<open>2^63\<close>), the plies of the history are 0, 1, ..., \<open>N - 1\<close> in
  this order, the first item starts from the initial position, every item starts from
  the position the previous one reached, the stored position is the one the last item
  reached (the initial position when \<open>N\<close> is 0), and every item records the position
  that the library reaches with its move.
\<close>

theorem history_replays_to_position:
  assumes "chess_Moves lib (chess_NewGame lib) = []"
    and "fresh_ids lib rl tr (new_server (memory_New lib ids now seedCount))"
    and "length tr < 2 ^ 64"
    and "games (srv_store (run lib rl tr (new_server (memory_New lib ids now seedCount)))) k = Some g"
  shows "length (history_of (srv_store (run lib rl tr (new_server (memory_New lib ids now seedCount)))) k) =
       accepted_moves lib rl tr (new_server (memory_New lib ids now seedCount)) k \<and>
     StateVersion g = of_nat (accepted_moves lib rl tr (new_server (memory_New lib ids now seedCount)) k) \<and>
     (\<forall>i < accepted_moves lib rl tr (new_server (memory_New lib ids now seedCount)) k.
        Ply (history_of (srv_store (run lib rl tr (new_server (memory_New lib ids now seedCount)))) k ! i) =
          of_nat i) \<and>
     (accepted_moves lib rl tr (new_server (memory_New lib ids now seedCount)) k < 2 ^ 63 \<longrightarrow>
        sint (StateVersion g) =
          int (accepted_moves lib rl tr (new_server (memory_New lib ids now seedCount)) k) \<and>
        (\<forall>i < accepted_moves lib rl tr (new_server (memory_New lib ids now seedCount)) k.
           sint (Ply (history_of (srv_store (run lib rl tr
             (new_server (memory_New lib ids now seedCount)))) k ! i)) = int i)) \<and>
     (accepted_moves lib rl tr (new_server (memory_New lib ids now seedCount)) k = 0 \<longrightarrow>
        FEN g = chess_String lib (chess_NewGame lib)) \<and>
     (0 < accepted_moves lib rl tr (new_server (memory_New lib ids now seedCount)) k \<longrightarrow>
        FENBefore (history_of (srv_store (run lib rl tr
          (new_server (memory_New lib ids now seedCount)))) k ! 0) =
          chess_String lib (chess_NewGame lib) \<and>
        FEN g = FENAfter (last (history_of (srv_store (run lib rl tr
          (new_server (memory_New lib ids now seedCount)))) k))) \<and>
     (\<forall>i. Suc i < accepted_moves lib rl tr (new_server (memory_New lib ids now seedCount)) k \<longrightarrow>
        FENBefore (history_of (srv_store (run lib rl tr
          (new_server (memory_New lib ids now seedCount)))) k ! Suc i) =
        FENAfter (history_of (srv_store (run lib rl tr
          (new_server (memory_New lib ids now seedCount)))) k ! i)) \<and>
     replays lib (chess_String lib (chess_NewGame lib))
       (history_of (srv_store (run lib rl tr (new_server (memory_New lib ids now seedCount)))) k)
       (FEN g)"
proof -
  let ?init = "new_server (memory_New lib ids now seedCount)"
  let ?fin = "srv_store (run lib rl tr ?init)"
  let ?N = "accepted_moves lib rl tr ?init k"
  let ?h = "history_of ?fin k"
  have h0: "\<And>j. history_of (srv_store ?init) j = []"
    by (simp add: new_server_def memory_New_def history_of_def)
  have inv0: "server_inv lib ?init"
    using store_inv_New [OF assms(1), of ids now seedCount]
    by (simp add: server_inv_def new_server_def)
  have bound: "\<forall>j. length (history_of (srv_store ?init) j) + length tr < 2 ^ 64"
    using assms(3) by (simp add: h0)
  from run_inv [OF assms(1) inv0 assms(2) bound, of k]
  have inv: "server_inv lib (run lib rl tr ?init)" and len: "length ?h = ?N"
    by (simp_all add: h0)
  from inv have sinv: "store_inv lib ?fin"
    by (simp add: server_inv_def)
  note gi = store_invD(1) [OF sinv assms(4)]
  note sv = game_invD(2) [OF gi] and pl = game_invD(4) [OF gi] and rp = game_invD(5) [OF gi]
  have signed: "?N < 2 ^ 63 \<longrightarrow>
      sint (StateVersion g) = int ?N \<and> (\<forall>i < ?N. sint (Ply (?h ! i)) = int i)"
  proof
    assume b: "?N < 2 ^ 63"
    have "sint (StateVersion g) = int ?N"
      using sv len sint_of_nat_small [OF b] by simp
    moreover have "\<forall>i < ?N. sint (Ply (?h ! i)) = int i"
    proof (intro allI impI)
      fix i assume i: "i < ?N"
      with b have "i < 2 ^ 63" by simp
      from sint_of_nat_small [OF this] pl i len show "sint (Ply (?h ! i)) = int i"
        by simp
    qed
    ultimately show "sint (StateVersion g) = int ?N \<and> (\<forall>i < ?N. sint (Ply (?h ! i)) = int i)"
      by simp
  qed
  note ch = replays_chain [OF rp]
  have hn: "(?h = []) = (?N = 0)"
    using len length_0_conv [of ?h] by simp
  have c0: "?N = 0 \<longrightarrow> FEN g = chess_String lib (chess_NewGame lib)"
    using ch hn by blast
  have c1: "0 < ?N \<longrightarrow>
      FENBefore (?h ! 0) = chess_String lib (chess_NewGame lib) \<and> FEN g = FENAfter (last ?h)"
    using ch hn by auto
  have c2: "\<forall>i. Suc i < ?N \<longrightarrow> FENBefore (?h ! Suc i) = FENAfter (?h ! i)"
    using ch unfolding len by blast
  have a1: "length ?h = ?N \<and> StateVersion g = of_nat ?N \<and> (\<forall>i < ?N. Ply (?h ! i) = of_nat i)"
    using len sv pl by simp
  show ?thesis
    using a1 signed c0 c1 c2 rp by blast
qed

lemma seeded_store_eq:
  "seeded_store =
     \<lparr>games = [1 \<mapsto> NewGame fragment 1 0], assigned = Map.empty, moved = Map.empty,
      history = Map.empty\<rparr>"
proof -
  have r1: "rounds 1 = 1"
    by (simp add: rounds_def)
  have u: "[0..<1] = [0]"
    by (simp add: upt_rec)
  show ?thesis
    by (simp add: seeded_store_def memory_New_def r1 u)
qed

lemma seeded_store_claim:
  "snd (memory_ClaimNextGame [1] 5 seeded_store) = example_store"
proof -
  have "claim_loop seeded_store 5 [1] = Some (NewGame fragment 1 0)"
    by (simp add: seeded_store_eq NewGame_def fromChessGame_def)
  from memory_ClaimNextGame_Some [OF this] show ?thesis
    by (simp add: claimed_def seeded_store_eq example_store_def NewGame_def fromChessGame_def
        StatusWaiting_def StatusOngoing_def)
qed

lemma example_store_claim:
  "snd (memory_ClaimNextGame [1] 6 example_store) = two_clients_store"
proof -
  have "claim_loop example_store 6 [1] = Some (NewGame fragment 1 0)"
    by (simp add: example_store_def NewGame_def fromChessGame_def)
  from memory_ClaimNextGame_Some [OF this] show ?thesis
    by (auto simp: claimed_def two_clients_store_def example_store_def NewGame_def
        fromChessGame_def StatusWaiting_def StatusOngoing_def)
qed

lemma ApplyMove_f2f3:
  "ApplyMove fragment 8 (NewGame fragment 1 0) ''f2f3'' 6 = Inr (f3_newGame, f3_rec)"
  by (simp add: f3_newGame_def f3_rec_def ApplyMove_def NewGame_def fromChessGame_def
      fragment_def isValidUCISyntax_def byte_def outcomeToStatus_def colorName_def
      StatusOngoing_def StatusWaiting_def initialFEN_def fen_e4_def fen_f3_def fen_g4_def
      fen_mate_def Let_def)

lemma ApplyMove_e7e5:
  "ApplyMove fragment 9 example_newGame ''e7e5'' 7 = Inr (e5_newGame, e5_rec)"
  by (simp add: e5_newGame_def e5_rec_def example_newGame_def ApplyMove_def fragment_def
      isValidUCISyntax_def byte_def outcomeToStatus_def colorName_def StatusOngoing_def
      StatusWaiting_def initialFEN_def fen_e4_def fen_e4e5_def fen_f3_def fen_g4_def
      fen_mate_def Let_def)

lemma moved_store_facts:
  "assignment_exists moved_store 1 6" "\<not> has_moved moved_store 1 6"
  "games moved_store 1 = Some example_newGame"
  "history_of moved_store 1 = [history_item 5 example_rec 0]"
  "moved moved_store 1 = Some {5}"
  by (simp_all add: moved_store_def two_clients_store_def example_store_def history_of_def
      assignment_exists_def has_moved_def)

lemma moved_store_conflict:
  "memory_PersistMove 1 6 f3_newGame f3_rec 0 moved_store = (Inl ErrVersionConflict, moved_store)"
proof -
  have "StateVersion example_newGame \<noteq> StateVersion f3_newGame - 1"
    by (simp add: example_newGame_def f3_newGame_def)
  from memory_PersistMove_VersionConflict [OF moved_store_facts(1,2,3) this]
  show ?thesis .
qed

lemma moved_store_PersistMove:
  "memory_PersistMove 1 6 e5_newGame e5_rec 1 moved_store =
     (Inr [history_item 5 example_rec 0, history_item 6 e5_rec 1], final_store)"
proof -
  have v: "StateVersion example_newGame = StateVersion e5_newGame - 1"
    by (simp add: example_newGame_def e5_newGame_def)
  have len: "\<not> length (rec_UCI e5_rec) < 4"
    by (simp add: e5_rec_def)
  have "insert (6::uuid) {5} = {5, 6}"
    by auto
  then show ?thesis
    using memory_PersistMove_pass [OF moved_store_facts(1,2,3) v, of e5_rec 1] len
    by (simp add: moved_store_facts final_store_def)
qed

lemma example_run_result:
  "run fragment AlwaysAllow (take 5 example_run) (new_server seeded_store) =
     \<lparr>srv_store = moved_store, srv_pending = [1 \<mapsto> pending_f3]\<rparr> \<and>
   srv_store (run fragment AlwaysAllow example_run (new_server seeded_store)) = final_store \<and>
   accepted_moves fragment AlwaysAllow example_run (new_server seeded_store) 1 = 2"
proof -
  let ?ip1 = "''10.0.0.1''" and ?ip2 = "''10.0.0.2''" and ?tk = "''token''"
  define S0 where "S0 = new_server seeded_store"
  define S1 where "S1 = \<lparr>srv_store = example_store, srv_pending = Map.empty\<rparr>"
  define S2 where "S2 = \<lparr>srv_store = two_clients_store, srv_pending = Map.empty\<rparr>"
  define S3 where "S3 = \<lparr>srv_store = two_clients_store, srv_pending = [0 \<mapsto> pending_e4]\<rparr>"
  define S4 where "S4 = \<lparr>srv_store = two_clients_store,
      srv_pending = [0 \<mapsto> pending_e4, 1 \<mapsto> pending_f3]\<rparr>"
  define S5 where "S5 = \<lparr>srv_store = moved_store, srv_pending = [1 \<mapsto> pending_f3]\<rparr>"
  define S6 where "S6 = \<lparr>srv_store = moved_store, srv_pending = (Map.empty :: nat \<rightharpoonup> PendingMove)\<rparr>"
  define S7 where "S7 = \<lparr>srv_store = moved_store, srv_pending = [2 \<mapsto> pending_e5]\<rparr>"
  define S8 where "S8 = \<lparr>srv_store = final_store, srv_pending = (Map.empty :: nat \<rightharpoonup> PendingMove)\<rparr>"
  have s1: "step fragment AlwaysAllow (OpClaimNextGame [1] 5) S0 = S1"
    by (simp add: S0_def S1_def new_server_def seeded_store_claim)
  have s2: "step fragment AlwaysAllow (OpClaimNextGame [1] 6) S1 = S2"
    by (simp add: S1_def S2_def example_store_claim)
  have v0: "StateVersion (NewGame fragment 1 0) = 0"
    by (simp add: NewGame_def fromChessGame_def)
  have p3: "submit_prepare fragment AlwaysAllow 7 5 ?ip1 ?tk 1 5 example_request two_clients_store =
      (Inr pending_e4, two_clients_store)"
    unfolding submit_prepare_unfold
    by (simp add: AlwaysAllow_def two_clients_store_facts(5) v0 example_request_def
        ApplyMove_e2e4 pending_e4_def example_newGame_def)
  have s3: "step fragment AlwaysAllow (OpSubmitMove_GetByID 0 7 5 ?ip1 ?tk 1 5 example_request) S2 = S3"
    by (simp add: S2_def S3_def p3)
  have p4: "submit_prepare fragment AlwaysAllow 8 6 ?ip2 ?tk 1 6 f3_request two_clients_store =
      (Inr pending_f3, two_clients_store)"
    unfolding submit_prepare_unfold
    by (simp add: AlwaysAllow_def two_clients_store_facts(5) v0 f3_request_def
        ApplyMove_f2f3 pending_f3_def f3_newGame_def)
  have s4: "step fragment AlwaysAllow (OpSubmitMove_GetByID 1 8 6 ?ip2 ?tk 1 6 f3_request) S3 = S4"
    by (simp add: S3_def S4_def p4)
  have c5: "submit_commit fragment pending_e4 two_clients_store =
      (Inr \<lparr>Move = example_rec, res_Game = example_newGame,
            res_History = [history_item 5 example_rec 0],
            ShouldFetchNext = (Status example_newGame \<noteq> StatusOngoing)\<rparr>, moved_store)"
    unfolding submit_commit_unfold
    by (simp add: pending_e4_def two_clients_PersistMove moved_store_def)
  have s5: "step fragment AlwaysAllow (OpSubmitMove_PersistMove 0) S4 = S5"
    by (auto simp: S4_def S5_def c5)
  have pg: "pm_gameID pending_e4 = 1" "pm_gameID pending_e5 = 1"
    by (simp_all add: pending_e4_def pending_e5_def)
  have a5: "accepted fragment AlwaysAllow (OpSubmitMove_PersistMove 0) S4 1"
    by (simp add: S4_def c5 pg)
  have c6: "submit_commit fragment pending_f3 moved_store = (Inl ErrVersionConflict, moved_store)"
    unfolding submit_commit_unfold
    by (simp add: pending_f3_def moved_store_conflict)
  have s6: "step fragment AlwaysAllow (OpSubmitMove_PersistMove 1) S5 = S6"
    by (auto simp: S5_def S6_def c6)
  have a6: "\<not> accepted fragment AlwaysAllow (OpSubmitMove_PersistMove 1) S5 1"
    by (simp add: S5_def c6)
  have v1: "StateVersion example_newGame = ExpectedVersion e5_request"
    "req_UCI e5_request = ''e7e5''"
    by (simp_all add: example_newGame_def e5_request_def)
  have pc: "PlyCount e5_newGame - 1 = 1"
    by (simp add: e5_newGame_def)
  have p7: "submit_prepare fragment AlwaysAllow 9 7 ?ip2 ?tk 1 6 e5_request moved_store =
      (Inr pending_e5, moved_store)"
    unfolding submit_prepare_unfold
    by (simp add: AlwaysAllow_def moved_store_facts(3) v1 ApplyMove_e7e5 pending_e5_def pc)
  have s7: "step fragment AlwaysAllow (OpSubmitMove_GetByID 2 9 7 ?ip2 ?tk 1 6 e5_request) S6 = S7"
    by (simp add: S6_def S7_def p7)
  have c8: "submit_commit fragment pending_e5 moved_store =
      (Inr \<lparr>Move = e5_rec, res_Game = e5_newGame,
            res_History = [history_item 5 example_rec 0, history_item 6 e5_rec 1],
            ShouldFetchNext = (Status e5_newGame \<noteq> StatusOngoing)\<rparr>, final_store)"
    unfolding submit_commit_unfold
    by (simp add: pending_e5_def moved_store_PersistMove)
  have s8: "step fragment AlwaysAllow (OpSubmitMove_PersistMove 2) S7 = S8"
    by (auto simp: S7_def S8_def c8)
  have a8: "accepted fragment AlwaysAllow (OpSubmitMove_PersistMove 2) S7 1"
    by (simp add: S7_def c8 pg)
  have na: "\<not> accepted fragment AlwaysAllow (OpClaimNextGame [1] 5) S0 1"
    "\<not> accepted fragment AlwaysAllow (OpClaimNextGame [1] 6) S1 1"
    "\<not> accepted fragment AlwaysAllow (OpSubmitMove_GetByID 0 7 5 ?ip1 ?tk 1 5 example_request) S2 1"
    "\<not> accepted fragment AlwaysAllow (OpSubmitMove_GetByID 1 8 6 ?ip2 ?tk 1 6 f3_request) S3 1"
    "\<not> accepted fragment AlwaysAllow (OpSubmitMove_GetByID 2 9 7 ?ip2 ?tk 1 6 e5_request) S6 1"
    by simp_all
  have t5: "take 5 example_run =
     [OpClaimNextGame [1] 5,
      OpClaimNextGame [1] 6,
      OpSubmitMove_GetByID 0 7 5 ?ip1 ?tk 1 5 example_request,
      OpSubmitMove_GetByID 1 8 6 ?ip2 ?tk 1 6 f3_request,
      OpSubmitMove_PersistMove 0]"
    by (simp add: example_run_def)
  have r5: "run fragment AlwaysAllow (take 5 example_run) S0 = S5"
    unfolding t5 by (simp only: run.simps s1 s2 s3 s4 s5)
  have r8: "run fragment AlwaysAllow example_run S0 = S8"
    unfolding example_run_def by (simp only: run.simps s1 s2 s3 s4 s5 s6 s7 s8)
  have n: "accepted_moves fragment AlwaysAllow example_run S0 1 = 2"
    unfolding example_run_def
    by (simp only: accepted_moves.simps s1 s2 s3 s4 s5 s6 s7 s8 a5 a6 a8 na if_True if_False)
  show ?thesis
    using r5 r8 n by (simp add: S0_def S5_def S8_def)
qed

lemma example_run_fresh:
  "fresh_ids fragment AlwaysAllow example_run (new_server seeded_store)"
  by (simp add: example_run_def)

lemma final_store_facts:
  "games final_store 1 = Some e5_newGame"
  "history_of final_store 1 = [history_item 5 example_rec 0, history_item 6 e5_rec 1]"
  by (simp_all add: final_store_def history_of_def)

theorem history_replays_to_position_witness:
  "chess_Moves fragment (chess_NewGame fragment) = [] \<and>
   fresh_ids fragment AlwaysAllow example_run (new_server seeded_store) \<and>
   length example_run < 2 ^ 64 \<and>
   run fragment AlwaysAllow (take 5 example_run) (new_server seeded_store) =
     \<lparr>srv_store = moved_store, srv_pending = [1 \<mapsto> pending_f3]\<rparr> \<and>
   submit_commit fragment pending_f3 moved_store = (Inl ErrVersionConflict, moved_store) \<and>
   games (srv_store (run fragment AlwaysAllow example_run (new_server seeded_store))) 1 =
     Some e5_newGame \<and>
   accepted_moves fragment AlwaysAllow example_run (new_server seeded_store) 1 = 2 \<and>
   history_of (srv_store (run fragment AlwaysAllow example_run (new_server seeded_store))) 1 =
     [history_item 5 example_rec 0, history_item 6 e5_rec 1] \<and>
   StateVersion e5_newGame = 2 \<and> sint (StateVersion e5_newGame) = 2 \<and>
   Ply (history_item 5 example_rec 0) = 0 \<and> Ply (history_item 6 e5_rec 1) = 1 \<and>
   FENBefore (history_item 5 example_rec 0) = initialFEN \<and>
   FENBefore (history_item 6 e5_rec 1) = FENAfter (history_item 5 example_rec 0) \<and>
   FEN e5_newGame = FENAfter (history_item 6 e5_rec 1) \<and>
   replays fragment initialFEN [history_item 5 example_rec 0, history_item 6 e5_rec 1]
     (FEN e5_newGame)"
proof -
  let ?init = "new_server (memory_New fragment (\<lambda>i. 1) 0 1)"
  let ?h = "[history_item 5 example_rec 0, history_item 6 e5_rec 1]"
  have m: "chess_Moves fragment (chess_NewGame fragment) = []"
    by (simp add: fragment_def)
  have len: "length example_run < 2 ^ 64"
    by (simp add: example_run_def)
  have g: "games (srv_store (run fragment AlwaysAllow example_run ?init)) 1 = Some e5_newGame"
    using example_run_result final_store_facts(1) by (simp add: seeded_store_def)
  have f: "fresh_ids fragment AlwaysAllow example_run ?init"
    using example_run_fresh by (simp add: seeded_store_def)
  note t = history_replays_to_position [OF m f len g]
  have n: "accepted_moves fragment AlwaysAllow example_run ?init 1 = 2"
    using example_run_result by (simp add: seeded_store_def)
  have h: "history_of (srv_store (run fragment AlwaysAllow example_run ?init)) 1 = ?h"
    using example_run_result final_store_facts(2) by (simp add: seeded_store_def)
  have s0: "chess_String fragment (chess_NewGame fragment) = initialFEN"
    by (simp add: fragment_def)
  have sv: "StateVersion e5_newGame = 2" "sint (StateVersion e5_newGame) = 2"
    using t unfolding n by simp_all
  have pl: "\<forall>i<2. Ply (?h ! i) = of_nat i"
    using t unfolding n h by blast
  have pl0: "Ply (history_item 5 example_rec 0) = 0"
    using pl [rule_format, of 0] by simp
  have pl1: "Ply (history_item 6 e5_rec 1) = 1"
    using pl [rule_format, of 1] by simp
  have fb: "FENBefore (?h ! 0) = initialFEN \<and> FEN e5_newGame = FENAfter (last ?h)"
    using t unfolding n h s0 by simp
  have ch: "\<forall>i. Suc i < 2 \<longrightarrow> FENBefore (?h ! Suc i) = FENAfter (?h ! i)"
    using t unfolding n h by blast
  have ch0: "FENBefore (history_item 6 e5_rec 1) = FENAfter (history_item 5 example_rec 0)"
    using ch [rule_format, of 0] by simp
  have rp: "replays fragment initialFEN ?h (FEN e5_newGame)"
    using t unfolding n h s0 by blast
  have c6: "submit_commit fragment pending_f3 moved_store = (Inl ErrVersionConflict, moved_store)"
    unfolding submit_commit_unfold
    by (simp add: pending_f3_def moved_store_conflict)
  have r5: "run fragment AlwaysAllow (take 5 example_run) (new_server seeded_store) =
     \<lparr>srv_store = moved_store, srv_pending = [1 \<mapsto> pending_f3]\<rparr>"
    using example_run_result by blast
  have fb1: "FENBefore (history_item 5 example_rec 0) = initialFEN"
    and fb2: "FEN e5_newGame = FENAfter (history_item 6 e5_rec 1)"
    using fb by simp_all
  show ?thesis
    using m example_run_fresh len r5 c6 g [folded seeded_store_def] n [folded seeded_store_def]
      h [folded seeded_store_def] sv pl0 pl1 fb1 ch0 fb2 rp
    by (intro conjI) assumption+
qed

end
